theory Spec2Isabelle
  imports Main
begin

section \<open>Strings\<close>

text \<open>
  JavaScript strings are modelled as \<^typ>\<open>string\<close>, one \<^typ>\<open>char\<close> per code unit.
  \<^typ>\<open>char\<close> has 256 values, so the model covers the code units U+0000 to U+00FF;
  every character the program tests for is in that range.
\<close>

definition replaceAll :: "char \<Rightarrow> string \<Rightarrow> string \<Rightarrow> string" where
  \<comment> \<open>\<open>s.replace(/c/g, r)\<close> for a one-character pattern \<open>c\<close>\<close>
  "replaceAll c r s = concat (map (\<lambda>x. if x = c then r else [x]) s)"

section \<open>Escaping (content.js, lines 61-75)\<close>

definition escapeText :: "string \<Rightarrow> string" where
  "escapeText s =
     replaceAll CHR ''>'' ''&gt;''
       (replaceAll CHR ''<'' ''&lt;''
         (replaceAll CHR ''&'' ''&amp;'' s))"

definition escapeAttr :: "string \<Rightarrow> string" where
  "escapeAttr s = replaceAll (CHR 0x22) ''&quot;'' (escapeText s)"



section \<open>More string operations\<close>

fun join :: "string \<Rightarrow> string list \<Rightarrow> string" where
  \<comment> \<open>\<open>xs.join(sep)\<close>\<close>
  "join sep [] = []"
| "join sep [x] = x"
| "join sep (x # y # ys) = x @ sep @ join sep (y # ys)"

definition startsWith :: "string \<Rightarrow> string \<Rightarrow> bool" where
  "startsWith s t = (take (length t) s = t)"

fun includes_str :: "string \<Rightarrow> string \<Rightarrow> bool" where
  \<comment> \<open>\<open>s.includes(t)\<close>: \<open>t\<close> occurs in \<open>s\<close> at some position\<close>
  "includes_str [] t = (t = [])"
| "includes_str (c # cs) t = (startsWith (c # cs) t \<or> includes_str cs t)"

definition lower_char :: "char \<Rightarrow> char" where
  \<comment> \<open>lower case of one code unit: A-Z, and the capital letters of U+00C0-U+00DE
      (U+00D7, the multiplication sign, is not a letter)\<close>
  "lower_char c =
     (let n = (of_char c :: nat)
      in if (65 \<le> n \<and> n \<le> 90) \<or> (192 \<le> n \<and> n \<le> 222 \<and> n \<noteq> 215)
         then char_of (n + 32) else c)"

definition toLowerCase :: "string \<Rightarrow> string" where
  "toLowerCase s = map lower_char s"

definition is_space :: "char \<Rightarrow> bool" where
  \<comment> \<open>the white space and line terminators of \<open>\s\<close> and \<open>trim()\<close>:
      TAB, LF, VT, FF, CR, SPACE, NO-BREAK SPACE\<close>
  "is_space c = (of_char c \<in> {9, 10, 11, 12, 13, 32, 160 :: nat})"

definition trim :: "string \<Rightarrow> string" where
  "trim s = rev (dropWhile is_space (rev (dropWhile is_space s)))"

section \<open>JavaScript values\<close>

text \<open>
  The values that \<open>JSON.parse\<close> builds, and \<open>undefined\<close>, which reading a missing
  property gives. \<open>JNum m e\<close> is the number \<open>m * 10^e\<close>: a number is kept as the decimal
  it was written as. A JavaScript number is a double; a decimal of at most 15 significant
  digits in the double range is printed back by \<open>String\<close> as the same decimal, which is
  what \<open>numberToString\<close> computes. \<open>JObj kvs\<close> lists the own properties of an object in
  the order \<open>Object.entries\<close> gives them; \<open>JSON.parse\<close> builds objects with distinct keys.

  What is thrown, or what a promise is rejected with, is an \<open>error\<close>; a function that can
  throw returns \<open>error + 'a\<close>, with \<open>Inl\<close> for the throw. The call stack is finite: a
  function that calls itself takes the number of further nested calls that the stack can
  hold, and throws \<open>StackOverflow\<close> where it needs one more.
\<close>

datatype error =
    TypeError            \<comment> \<open>a value that has no conversion to a string\<close>
  | StackOverflow        \<comment> \<open>too much recursion\<close>
  | NetworkError
  | HttpError string     \<comment> \<open>\<open>new Error(r.statusText)\<close>\<close>
  | NonJsonResponse      \<comment> \<open>\<open>new Error('Server returned non-JSON response')\<close>\<close>
  | JsonSyntaxError      \<comment> \<open>what \<open>JSON.parse\<close> throws\<close>

fun collect :: "(error + 'a) list \<Rightarrow> error + 'a list" where
  \<comment> \<open>the results of \<open>xs.map(f)\<close>, from the results of the calls in order: the first throw
      ends the loop\<close>
  "collect [] = Inr []"
| "collect (r # rs) =
     (case r of
        Inl e \<Rightarrow> Inl e
      | Inr x \<Rightarrow> (case collect rs of Inl e \<Rightarrow> Inl e | Inr xs \<Rightarrow> Inr (x # xs)))"

datatype jsval =
    JUndefined
  | JNull
  | JBool bool
  | JNum int int
  | JStr string
  | JArr "jsval list"
  | JObj "(string \<times> jsval) list"

definition digit_char :: "nat \<Rightarrow> char" where
  "digit_char d = ''0123456789'' ! d"

fun digits :: "nat \<Rightarrow> string" where
  "digits n = (if n < 10 then [digit_char n] else digits (n div 10) @ [digit_char (n mod 10)])"

declare digits.simps [simp del]

function strip_zeros :: "nat \<Rightarrow> int \<Rightarrow> nat \<times> int" where
  \<comment> \<open>the shortest digit string of \<open>s * 10^x\<close>: no trailing zero in \<open>s\<close>\<close>
  "strip_zeros s x =
     (if s \<noteq> 0 \<and> s mod 10 = 0 then strip_zeros (s div 10) (x + 1) else (s, x))"
  by pat_completeness auto
termination
  by (relation "measure (\<lambda>(s, x). s)") auto

declare strip_zeros.simps [simp del]

definition numberToString :: "int \<Rightarrow> int \<Rightarrow> string" where
  \<comment> \<open>ECMAScript \<open>Number::toString\<close> in radix 10, on the digits \<open>ds\<close> (\<open>k\<close> of them) and
      the position \<open>n\<close> of the decimal point\<close>
  "numberToString m e =
     (if m = 0 then ''0''
      else
        let (s, x) = strip_zeros (nat \<bar>m\<bar>) e;
            ds = digits s;
            k = int (length ds);
            n = k + x;
            ex = n - 1;
            es = (if ex < 0 then ''-'' else ''+'') @ digits (nat \<bar>ex\<bar>)
        in (if m < 0 then ''-'' else [])
           @ (if k \<le> n \<and> n \<le> 21 then ds @ replicate (nat (n - k)) CHR ''0''
              else if 0 < n \<and> n \<le> 21 then take (nat n) ds @ ''.'' @ drop (nat n) ds
              else if - 6 < n \<and> n \<le> 0 then ''0.'' @ replicate (nat (- n)) CHR ''0'' @ ds
              else if k = 1 then ds @ ''e'' @ es
              else take 1 ds @ ''.'' @ drop 1 ds @ ''e'' @ es))"

fun is_object :: "jsval \<Rightarrow> bool" where
  \<comment> \<open>an array or an object: its conversion to a string is a call of its \<open>toString\<close>\<close>
  "is_object (JArr xs) = True"
| "is_object (JObj kvs) = True"
| "is_object v = False"

fun String_js :: "nat \<Rightarrow> jsval \<Rightarrow> error + string" where
  \<comment> \<open>\<open>String(v)\<close>, with room for \<open>d\<close> nested calls. An array prints its elements joined
      by commas, \<open>null\<close> and \<open>undefined\<close> elements as nothing. An object with an own
      \<open>toString\<close> property (a JSON value, never a function) has no conversion: the
      property hides \<open>Object.prototype.toString\<close>, and \<open>valueOf\<close> gives no primitive\<close>
  "String_js d JUndefined = Inr ''undefined''"
| "String_js d JNull = Inr ''null''"
| "String_js d (JBool b) = Inr (if b then ''true'' else ''false'')"
| "String_js d (JNum m e) = Inr (numberToString m e)"
| "String_js d (JStr s) = Inr s"
| "String_js d (JArr xs) =
     (case collect
             (map (\<lambda>x. if x = JNull \<or> x = JUndefined then Inr []
                        else if is_object x
                        then (if d = 0 then Inl StackOverflow else String_js (d - 1) x)
                        else String_js d x) xs) of
        Inl e \<Rightarrow> Inl e
      | Inr ss \<Rightarrow> Inr (join '','' ss))"
| "String_js d (JObj kvs) =
     (if map_of kvs ''toString'' \<noteq> None then Inl TypeError else Inr ''[object Object]'')"

fun truthy :: "jsval \<Rightarrow> bool" where
  "truthy JUndefined = False"
| "truthy JNull = False"
| "truthy (JBool b) = b"
| "truthy (JNum m e) = (m \<noteq> 0)"
| "truthy (JStr s) = (s \<noteq> [])"
| "truthy (JArr xs) = True"
| "truthy (JObj kvs) = True"

fun get_prop :: "jsval \<Rightarrow> string \<Rightarrow> jsval" where
  \<comment> \<open>\<open>v.k\<close> for a property name \<open>k\<close> that no prototype defines (the program reads
      \<open>review\<close>, \<open>body\<close>, \<open>headerProps\<close>, \<open>musicRating\<close>, \<open>score\<close>, \<open>position\<close>); never
      applied to \<open>null\<close> or \<open>undefined\<close>, where JavaScript throws\<close>
  "get_prop (JObj kvs) k = (case map_of kvs k of Some v \<Rightarrow> v | None \<Rightarrow> JUndefined)"
| "get_prop v k = JUndefined"

definition and_prop :: "jsval \<Rightarrow> string \<Rightarrow> jsval" where
  \<comment> \<open>\<open>a && a.k\<close>\<close>
  "and_prop a k = (if truthy a then get_prop a k else a)"

section \<open>Markup reconstruction (content.js, lines 46-54 and 84-103)\<close>

definition isAdNode :: "jsval \<Rightarrow> jsval \<Rightarrow> bool" where
  "isAdNode tag attrs =
     (case tag of
        JStr t \<Rightarrow>
          if includes_str (toLowerCase t) ''ad'' then True
          else (case attrs of
                  JObj kvs \<Rightarrow>
                    (case map_of kvs ''position'' of
                       Some (JStr p) \<Rightarrow> includes_str (toLowerCase p) ''ad''
                     | _ \<Rightarrow> False)
                | _ \<Rightarrow> False)
      | _ \<Rightarrow> False)"

definition attrStr :: "nat \<Rightarrow> (string \<times> jsval) list \<Rightarrow> error + string" where
  \<comment> \<open>lines 96-99\<close>
  "attrStr d attrs =
     (case collect
             (map (\<lambda>(k, v). case String_js d v of
                                Inl e \<Rightarrow> Inl e
                              | Inr s \<Rightarrow> Inr (k @ ''='' @ [CHR 0x22] @ escapeAttr s @ [CHR 0x22]))
                (filter (\<lambda>(k, v). k \<noteq> ''isExternal'') attrs)) of
        Inl e \<Rightarrow> Inl e
      | Inr parts \<Rightarrow> Inr (join '' '' parts))"

definition element_html ::
  "nat \<Rightarrow> string \<Rightarrow> (string \<times> jsval) list \<Rightarrow> (error + string) list \<Rightarrow> error + string" where
  \<comment> \<open>lines 95-102, on the tag, the attributes and the results of rendering the children
      in order\<close>
  "element_html d tag attrs childResults =
     (if isAdNode (JStr tag) (JObj attrs) then Inr []
      else
        case attrStr d attrs of
          Inl e \<Rightarrow> Inl e
        | Inr a \<Rightarrow>
            let opening = (if a \<noteq> [] then ''<'' @ tag @ '' '' @ a @ ''>'' else ''<'' @ tag @ ''>'')
            in (case collect childResults of
                  Inl e \<Rightarrow> Inl e
                | Inr childHtml \<Rightarrow> Inr (opening @ concat childHtml @ ''</'' @ tag @ ''>'')))"

fun bodyArrayToHtml :: "nat \<Rightarrow> jsval \<Rightarrow> error + string" where
  \<comment> \<open>with room for \<open>d\<close> nested calls\<close>
  \<comment> \<open>line 85: a string is a text leaf\<close>
  "bodyArrayToHtml d (JStr s) = Inr (escapeText s)"
  \<comment> \<open>line 86: the empty array\<close>
| "bodyArrayToHtml d (JArr []) = Inr []"
  \<comment> \<open>lines 91-94: the entry after the tag is a plain object, taken as the attributes\<close>
| "bodyArrayToHtml d (JArr (JStr tag # JObj attrs # children)) =
     element_html d tag attrs
       (map (\<lambda>c. if d = 0 then Inl StackOverflow else bodyArrayToHtml (d - 1) c) children)"
  \<comment> \<open>lines 89-90: no attributes; every entry after the tag is a child\<close>
| "bodyArrayToHtml d (JArr (JStr tag # children)) =
     element_html d tag []
       (map (\<lambda>c. if d = 0 then Inl StackOverflow else bodyArrayToHtml (d - 1) c) children)"
  \<comment> \<open>line 88: the tag is not a string\<close>
| "bodyArrayToHtml d (JArr (t # rest)) = Inr []"
  \<comment> \<open>line 86: neither a string nor an array\<close>
| "bodyArrayToHtml d v = Inr []"



fun nesting :: "jsval \<Rightarrow> nat" where
  \<comment> \<open>how deep arrays and objects are nested in the value\<close>
  "nesting (JArr xs) = Suc (foldr max (map nesting xs) 0)"
| "nesting (JObj kvs) = Suc (foldr max (map (\<lambda>(k, v). nesting v) kvs) 0)"
| "nesting v = 0"

fun mentions_ad :: "string \<Rightarrow> bool" where
  \<comment> \<open>the specification's reading of "contains the substring ad, in any case": an
      \<open>a\<close> or \<open>A\<close> followed at once by a \<open>d\<close> or \<open>D\<close>\<close>
  "mentions_ad (a # d # rest) =
     (((a = CHR ''a'' \<or> a = CHR ''A'') \<and> (d = CHR ''d'' \<or> d = CHR ''D''))
      \<or> mentions_ad (d # rest))"
| "mentions_ad s = False"

section \<open>Score parsing (content.js, lines 22-28)\<close>

definition is_digit :: "char \<Rightarrow> bool" where
  \<comment> \<open>\<open>\d\<close>\<close>
  "is_digit c = (let n = (of_char c :: nat) in 48 \<le> n \<and> n \<le> 57)"

definition is_word :: "char \<Rightarrow> bool" where
  \<comment> \<open>\<open>\w\<close>: a letter, a digit or the underscore\<close>
  "is_word c =
     (let n = (of_char c :: nat)
      in (48 \<le> n \<and> n \<le> 57) \<or> (65 \<le> n \<and> n \<le> 90) \<or> (97 \<le> n \<and> n \<le> 122) \<or> n = 95)"

function collapse_spaces :: "string \<Rightarrow> string" where
  \<comment> \<open>\<open>text.replace(/\s+/g, ' ')\<close>: every maximal run of white space becomes one space\<close>
  "collapse_spaces [] = []"
| "collapse_spaces (c # cs) =
     (if is_space c then CHR '' '' # collapse_spaces (dropWhile is_space cs)
      else c # collapse_spaces cs)"
  by pat_completeness auto
termination
  by (relation "measure length") (auto simp: length_dropWhile_le less_Suc_eq_le)

definition alternatives :: "string \<Rightarrow> string list" where
  \<comment> \<open>the group \<open>(10\.0|10|\d\.\d)\<close> at the start of \<open>s\<close>: what each alternative matches
      there, in the order the alternatives are tried\<close>
  "alternatives s =
     (if startsWith s ''10.0'' then [''10.0''] else [])
     @ (if startsWith s ''10'' then [''10''] else [])
     @ (case s of
          a # b # c # rest \<Rightarrow>
            if is_digit a \<and> b = CHR ''.'' \<and> is_digit c then [[a, b, c]] else []
        | _ \<Rightarrow> [])"

definition exact_match :: "string \<Rightarrow> string option" where
  \<comment> \<open>\<open>/^(10\.0|10|\d\.\d)$/\<close>: the first alternative that ends where the text ends\<close>
  "exact_match s = find (\<lambda>tok. tok = s) (alternatives s)"

definition boundary_after :: "string \<Rightarrow> string \<Rightarrow> bool" where
  \<comment> \<open>\<open>\b\<close> after the token \<open>tok\<close> at the start of \<open>s\<close>; a token ends in a digit, so
      the boundary is there when the text ends or goes on with a non-word character\<close>
  "boundary_after tok s = (case drop (length tok) s of [] \<Rightarrow> True | c # cs \<Rightarrow> \<not> is_word c)"

fun search_from :: "bool \<Rightarrow> string \<Rightarrow> string option" where
  \<comment> \<open>\<open>/\b(10\.0|10|\d\.\d)\b/\<close> tried at each position from the left; \<open>pw\<close> tells
      whether the character before the position is a word character\<close>
  "search_from pw [] = None"
| "search_from pw (c # cs) =
     (case (if pw \<noteq> is_word c
            then find (\<lambda>tok. boundary_after tok (c # cs)) (alternatives (c # cs))
            else None) of
        Some tok \<Rightarrow> Some tok
      | None \<Rightarrow> search_from (is_word c) cs)"

definition search_match :: "string \<Rightarrow> string option" where
  "search_match s = search_from False s"

definition digit_val :: "char \<Rightarrow> int" where
  "digit_val c = int (of_char c) - 48"

definition parseFloat :: "string \<Rightarrow> int \<times> int" where
  \<comment> \<open>\<open>parseFloat\<close> on an unsigned decimal without exponent, the only shape the pattern
      lets through: the number \<open>m * 10^e\<close> as the pair \<open>(m, e)\<close>\<close>
  "parseFloat s =
     (let ip = takeWhile is_digit s;
          r = dropWhile is_digit s;
          fp = (case r of c # cs \<Rightarrow> if c = CHR ''.'' then takeWhile is_digit cs else [] | [] \<Rightarrow> [])
      in (foldl (\<lambda>acc c. 10 * acc + digit_val c) 0 (ip @ fp), - int (length fp)))"

definition num_le :: "int \<times> int \<Rightarrow> int \<times> int \<Rightarrow> bool" where
  \<comment> \<open>\<open>a <= b\<close> on numbers \<open>m * 10^e\<close>, the two brought to the smaller exponent\<close>
  "num_le a b =
     (let e0 = min (snd a) (snd b)
      in fst a * 10 ^ nat (snd a - e0) \<le> fst b * 10 ^ nat (snd b - e0))"

definition parseScoreText :: "string \<Rightarrow> (int \<times> int) option" where
  "parseScoreText text =
     (let cleaned = trim (collapse_spaces text)
      in case (case exact_match cleaned of Some tok \<Rightarrow> Some tok | None \<Rightarrow> search_match cleaned) of
           None \<Rightarrow> None
         | Some tok \<Rightarrow>
             let n = parseFloat tok
             in if num_le (0, 0) n \<and> num_le n (10, 0) then Some n else None)"

text \<open>
  The specification's reading of a score token in a text: one of \<open>10.0\<close>, \<open>10\<close> and
  digit-point-digit, with no word character right before it or right after it.
\<close>

definition is_token :: "string \<Rightarrow> bool" where
  "is_token tok =
     (tok = ''10.0'' \<or> tok = ''10''
      \<or> (case tok of [a, b, c] \<Rightarrow> is_digit a \<and> b = CHR ''.'' \<and> is_digit c | _ \<Rightarrow> False))"

definition bounded_token :: "string \<Rightarrow> string \<Rightarrow> string \<Rightarrow> bool" where
  \<comment> \<open>the token \<open>tok\<close> between the texts \<open>pre\<close> and \<open>suf\<close>\<close>
  "bounded_token pre tok suf =
     (is_token tok \<and> (pre = [] \<or> \<not> is_word (last pre)) \<and> (suf = [] \<or> \<not> is_word (hd suf)))"

definition bounded_from :: "bool \<Rightarrow> string \<Rightarrow> string \<Rightarrow> string \<Rightarrow> bool" where
  \<comment> \<open>\<open>bounded_token\<close> in a text that follows a word character (\<open>pw\<close>) or not\<close>
  "bounded_from pw pre tok suf =
     (is_token tok \<and> \<not> (if pre = [] then pw else is_word (last pre))
      \<and> (suf = [] \<or> \<not> is_word (hd suf)))"

section \<open>The page\<close>

text \<open>
  A node of the document is a text node or an element with its tag name, its attributes,
  the \<open>filter\<close> property of its inline style and its child nodes. The document is its
  root element. An element is addressed by its path: the child indices from the root.
\<close>

datatype dom =
    TextNode string
  | Element string "(string \<times> string) list" string "dom list"

fun is_element :: "dom \<Rightarrow> bool" where
  \<comment> \<open>\<open>node.nodeType === 1\<close>\<close>
  "is_element (Element t as f cs) = True"
| "is_element (TextNode s) = False"

fun tagName :: "dom \<Rightarrow> string" where
  "tagName (Element t as f cs) = t"
| "tagName (TextNode s) = []"

fun childNodes :: "dom \<Rightarrow> dom list" where
  "childNodes (Element t as f cs) = cs"
| "childNodes (TextNode s) = []"

fun style_filter :: "dom \<Rightarrow> string" where
  "style_filter (Element t as f cs) = f"
| "style_filter (TextNode s) = []"

fun textContent :: "dom \<Rightarrow> string" where
  "textContent (TextNode s) = s"
| "textContent (Element t as f cs) = concat (map textContent cs)"

datatype selector =
    AttrContains string string  \<comment> \<open>\<open>[a*="v"]\<close>\<close>
  | AttrEquals string string    \<comment> \<open>\<open>[a="v"]\<close>\<close>

fun matches :: "selector \<Rightarrow> dom \<Rightarrow> bool" where
  "matches sel (TextNode s) = False"
| "matches (AttrContains a v) (Element t as f cs) =
     (case map_of as a of Some x \<Rightarrow> v \<noteq> [] \<and> includes_str x v | None \<Rightarrow> False)"
| "matches (AttrEquals a v) (Element t as f cs) = (map_of as a = Some v)"

fun find_node :: "selector \<Rightarrow> dom \<Rightarrow> (nat list \<times> dom) option"
  and find_nodes :: "selector \<Rightarrow> nat \<Rightarrow> dom list \<Rightarrow> (nat list \<times> dom) option" where
  \<comment> \<open>the first match in document order, with its path\<close>
  "find_node sel (TextNode s) = None"
| "find_node sel (Element t as f cs) =
     (if matches sel (Element t as f cs) then Some ([], Element t as f cs)
      else find_nodes sel 0 cs)"
| "find_nodes sel i [] = None"
| "find_nodes sel i (c # cs) =
     (case find_node sel c of
        Some (p, n) \<Rightarrow> Some (i # p, n)
      | None \<Rightarrow> find_nodes sel (Suc i) cs)"

definition querySelector :: "selector \<Rightarrow> dom \<Rightarrow> (nat list \<times> dom) option" where
  \<comment> \<open>\<open>document.querySelector(sel)\<close>, on the root element\<close>
  "querySelector sel root = find_node sel root"

definition el_querySelector :: "selector \<Rightarrow> dom \<Rightarrow> (nat list \<times> dom) option" where
  \<comment> \<open>\<open>el.querySelector(sel)\<close>: the descendants of \<open>el\<close> only\<close>
  "el_querySelector sel el = find_nodes sel 0 (childNodes el)"

fun node_at :: "dom \<Rightarrow> nat list \<Rightarrow> dom option" where
  "node_at d [] = Some d"
| "node_at (Element t as f cs) (i # p) = (if i < length cs then node_at (cs ! i) p else None)"
| "node_at (TextNode s) (i # p) = None"

fun modify_at :: "nat list \<Rightarrow> (dom \<Rightarrow> dom) \<Rightarrow> dom \<Rightarrow> dom" where
  \<comment> \<open>the document after the node at the path is changed by \<open>g\<close>\<close>
  "modify_at [] g d = g d"
| "modify_at (i # p) g (Element t as f cs) =
     (if i < length cs then Element t as f (cs[i := modify_at p g (cs ! i)])
      else Element t as f cs)"
| "modify_at (i # p) g (TextNode s) = TextNode s"

fun replaceChildren :: "dom list \<Rightarrow> dom \<Rightarrow> dom" where
  "replaceChildren ns (Element t as f cs) = Element t as f ns"
| "replaceChildren ns (TextNode s) = TextNode s"

fun set_textContent :: "string \<Rightarrow> dom \<Rightarrow> dom" where
  \<comment> \<open>\<open>el.textContent = s\<close>: the children become one text node, or none for the empty string\<close>
  "set_textContent s (Element t as f cs) = Element t as f (if s = [] then [] else [TextNode s])"
| "set_textContent s (TextNode x) = TextNode s"

fun set_style_filter :: "string \<Rightarrow> dom \<Rightarrow> dom" where
  \<comment> \<open>\<open>el.style.filter = v\<close>\<close>
  "set_style_filter v (Element t as f cs) = Element t as v cs"
| "set_style_filter v (TextNode s) = TextNode s"

definition lastElementChild :: "dom \<Rightarrow> nat option" where
  \<comment> \<open>the index of the last child that is an element\<close>
  "lastElementChild el =
     (case filter (\<lambda>i. is_element (childNodes el ! i)) (rev [0 ..< length (childNodes el)]) of
        [] \<Rightarrow> None
      | i # _ \<Rightarrow> Some i)"

function deepest_last :: "dom \<Rightarrow> nat list" where
  \<comment> \<open>line 141: \<open>while (el.lastElementChild) el = el.lastElementChild\<close>, as the path
      from \<open>el\<close> to where the loop stops\<close>
  "deepest_last el =
     (case lastElementChild el of
        None \<Rightarrow> []
      | Some i \<Rightarrow> i # deepest_last (childNodes el ! i))"
  by pat_completeness auto
termination
proof (relation "measure size")
  show "wf (measure size)" by simp
next
  fix el :: dom and i
  assume a: "lastElementChild el = Some i"
  let ?l = "filter (\<lambda>i. is_element (childNodes el ! i)) (rev [0 ..< length (childNodes el)])"
  from a obtain xs where e: "?l = i # xs"
    by (auto simp: lastElementChild_def split: list.splits)
  have "i \<in> set ?l" unfolding e by simp
  then have less: "i < length (childNodes el)" by simp
  then have "childNodes el ! i \<in> set (childNodes el)" by simp
  then have "size (childNodes el ! i) \<le> size_list size (childNodes el)"
    by (rule size_list_estimation') simp
  with less show "(childNodes el ! i, el) \<in> measure size"
    by (cases el) simp_all
qed

declare deepest_last.simps [simp del]

section \<open>Paywall detection (content.js, lines 8-38)\<close>

definition isAlbumReviewPage :: "string \<Rightarrow> bool" where
  \<comment> \<open>\<open>/^\/reviews\/albums\/[^/]+\/?$/\<close> on the path\<close>
  "isAlbumReviewPage path =
     (startsWith path ''/reviews/albums/'' \<and>
      (let r = drop 16 path;
           seg = takeWhile (\<lambda>c. c \<noteq> CHR ''/'') r;
           rest = dropWhile (\<lambda>c. c \<noteq> CHR ''/'') r
       in seg \<noteq> [] \<and> (rest = [] \<or> rest = ''/'')))"

definition getPitchforkScore :: "string \<Rightarrow> dom \<Rightarrow> (int \<times> int) option" where
  "getPitchforkScore path d =
     (if \<not> isAlbumReviewPage path then None
      else case querySelector (AttrContains ''class'' ''ScoreCircle'') d of
             None \<Rightarrow> None
           | Some (p, el) \<Rightarrow> parseScoreText (trim (textContent el)))"

definition isPaywalled :: "string \<Rightarrow> dom \<Rightarrow> bool" where
  "isPaywalled path d =
     (if querySelector (AttrContains ''class'' ''InContentBarrierFloatingBarLink'') d \<noteq> None
      then True
      else if (case getPitchforkScore path d of Some n \<Rightarrow> fst n = 0 | None \<Rightarrow> False) then True
      else False)"

definition hasPaywallBar :: "dom option \<Rightarrow> bool" where
  \<comment> \<open>lines 180-184; \<open>None\<close> is a null root\<close>
  "hasPaywallBar root =
     (case root of
        None \<Rightarrow> False
      | Some el \<Rightarrow>
          if \<not> is_element el then False
          else matches (AttrContains ''class'' ''InContentBarrierFloatingBar'') el
               \<or> el_querySelector (AttrContains ''class'' ''InContentBarrierFloatingBar'') el \<noteq> None)"

section \<open>Fetching (content.js, lines 109-128)\<close>

text \<open>
  What the browser provides: \<open>JSON.parse\<close> (\<open>None\<close> when it throws), the \<open>Sanitizer\<close>
  interface where the browser has it (\<open>sanitizeFor\<close> giving the child nodes of the element
  it returns, or \<open>None\<close> for null), \<open>DOMParser\<close> (the child nodes of the parsed body), and
  the call stack: how many nested calls it can hold below a callback.
\<close>

record host =
  call_stack :: nat
  JSON_parse :: "string \<Rightarrow> jsval option"
  Sanitizer :: "(string \<Rightarrow> dom list option) option"
  DOMParser :: "string \<Rightarrow> dom list"

record response =
  ok :: bool
  statusText :: string
  body_text :: string

datatype fetch_outcome =
    NetworkFailure       \<comment> \<open>\<open>fetch\<close> or the reading of the body rejects\<close>
  | Responded response

datatype diag =
    WarnNotJson string          \<comment> \<open>line 117, with the first 200 characters\<close>
  | WarnParseFailed string      \<comment> \<open>line 123, with the first 200 characters\<close>
  | WarnBodyNotArray            \<comment> \<open>line 155\<close>
  | WarnBodyWrapperNotFound     \<comment> \<open>line 161\<close>
  | WarnFetchFailed error       \<comment> \<open>line 175\<close>

definition fetchReviewJson :: "host \<Rightarrow> fetch_outcome \<Rightarrow> (error + jsval) \<times> diag list" where
  \<comment> \<open>how the promise settles (\<open>Inl\<close>: rejected), and the warnings written meanwhile\<close>
  "fetchReviewJson h outcome =
     (case outcome of
        NetworkFailure \<Rightarrow> (Inl NetworkError, [])
      | Responded r \<Rightarrow>
          if \<not> ok r then (Inl (HttpError (statusText r)), [])
          else
            let trimmed = trim (body_text r)
            in if trimmed = [] \<or> startsWith trimmed ''<''
               then (Inl NonJsonResponse, [WarnNotJson (take 200 trimmed)])
               else (case JSON_parse h trimmed of
                       Some data \<Rightarrow> (Inr data, [])
                     | None \<Rightarrow> (Inl JsonSyntaxError, [WarnParseFailed (take 200 trimmed)])))"

section \<open>Patching the page (content.js, lines 136-176)\<close>

record page =
  document :: dom
  console :: "diag list"

definition updatePageWithScore :: "nat \<Rightarrow> jsval \<Rightarrow> dom \<Rightarrow> error + dom" where
  \<comment> \<open>with room for \<open>d\<close> nested calls; \<open>String(score)\<close> is evaluated before anything is
      written, so a throw leaves the document as it was\<close>
  "updatePageWithScore d score root =
     (if score = JNull \<or> score = JUndefined then Inr root
      else case querySelector (AttrContains ''class'' ''ScoreBoxWrapper'') root of
             None \<Rightarrow> Inr root
           | Some (p, wrapper) \<Rightarrow>
               (case String_js d score of
                  Inl e \<Rightarrow> Inl e
                | Inr s \<Rightarrow>
                    Inr (modify_at (p @ deepest_last wrapper)
                           (\<lambda>el. set_style_filter ''blur(0px)'' (set_textContent s el)) root)))"

definition review_score :: "jsval \<Rightarrow> jsval" where
  \<comment> \<open>line 172\<close>
  "review_score data =
     and_prop (and_prop (and_prop (and_prop data ''review'') ''headerProps'') ''musicRating'')
       ''score''"

definition parsed_nodes :: "host \<Rightarrow> string \<Rightarrow> dom list option" where
  \<comment> \<open>lines 164-170: the nodes to put into the body container, from the sanitizer where
      the browser has one (\<open>None\<close> when it returns null), else from the HTML parser\<close>
  "parsed_nodes h html =
     (case Sanitizer h of
        Some sanitizeFor \<Rightarrow> sanitizeFor html
      | None \<Rightarrow> Some (DOMParser h html))"

definition on_fulfilled :: "host \<Rightarrow> jsval \<Rightarrow> page \<Rightarrow> page \<times> error option" where
  \<comment> \<open>lines 152-174: the \<open>then\<close> callback, on the page as it is when the promise settles.
      The result is the page as the callback leaves it, and what it has thrown, if it
      has: a throw ends the callback, and what was written before stays\<close>
  "on_fulfilled h data pg =
     (let body = and_prop (and_prop data ''review'') ''body''
      in case body of
           JArr xs \<Rightarrow>
             (case bodyArrayToHtml (call_stack h) body of
                Inl e \<Rightarrow> (pg, Some e)
              | Inr html \<Rightarrow>
                  (case querySelector (AttrEquals ''data-testid'' ''BodyWrapper'') (document pg) of
                     None \<Rightarrow> (pg\<lparr>console := console pg @ [WarnBodyWrapperNotFound]\<rparr>, None)
                   | Some (p, bodyWrapper) \<Rightarrow>
                       let d1 = (case parsed_nodes h html of
                                   Some ns \<Rightarrow> modify_at p (replaceChildren ns) (document pg)
                                 | None \<Rightarrow> document pg);
                           score = review_score data
                       in (case updatePageWithScore (call_stack h) score d1 of
                             Inl e \<Rightarrow> (pg\<lparr>document := d1\<rparr>, Some e)
                           | Inr d2 \<Rightarrow> (pg\<lparr>document := d2\<rparr>, None))))
         | _ \<Rightarrow> (pg\<lparr>console := console pg @ [WarnBodyNotArray]\<rparr>, None))"

definition on_rejected :: "error \<Rightarrow> page \<Rightarrow> page" where
  \<comment> \<open>line 175: the \<open>catch\<close> callback\<close>
  "on_rejected err pg = pg\<lparr>console := console pg @ [WarnFetchFailed err]\<rparr>"

definition enhancePaywalledPage :: "host \<Rightarrow> fetch_outcome \<Rightarrow> page \<Rightarrow> page" where
  \<comment> \<open>lines 150-176, from the outcome of the one request it makes; the \<open>catch\<close> callback
      gets a rejection of the request and a throw of the \<open>then\<close> callback alike\<close>
  "enhancePaywalledPage h outcome pg =
     (case fetchReviewJson h outcome of
        (Inr data, ws) \<Rightarrow>
          (case on_fulfilled h data (pg\<lparr>console := console pg @ ws\<rparr>) of
             (pg1, None) \<Rightarrow> pg1
           | (pg1, Some e) \<Rightarrow> on_rejected e pg1)
      | (Inl err, ws) \<Rightarrow> on_rejected err (pg\<lparr>console := console pg @ ws\<rparr>))"

section \<open>Watching for the paywall (content.js, lines 178-208)\<close>

text \<open>
  The script's state: the page, whether the mutation observer is connected, whether the
  request is under way, and the calls made so far to \<open>observer.disconnect\<close>,
  \<open>runPaywallCheck\<close> and \<open>fetch\<close>, in order.
\<close>

datatype call = Disconnect | PaywallCheck | Fetch

record world =
  pg :: page
  observing :: bool
  pending :: bool
  calls :: "call list"

definition document_body :: "dom \<Rightarrow> dom option" where
  \<comment> \<open>\<open>document.body\<close>: the first \<open>body\<close> or \<open>frameset\<close> child of the root element\<close>
  "document_body root =
     find (\<lambda>c. is_element c \<and> (tagName c = ''body'' \<or> tagName c = ''frameset''))
       (childNodes root)"

definition runPaywallCheck :: "string \<Rightarrow> world \<Rightarrow> world" where
  \<comment> \<open>lines 186-189; \<open>enhancePaywalledPage\<close> sends the request at once and goes on when
      it settles\<close>
  "runPaywallCheck path w =
     (let w1 = w\<lparr>calls := calls w @ [PaywallCheck]\<rparr>;
          paywalled = isPaywalled path (document (pg w1))
      in if paywalled then w1\<lparr>calls := calls w1 @ [Fetch], pending := True\<rparr> else w1)"

definition observer_callback :: "string \<Rightarrow> dom list list \<Rightarrow> world \<Rightarrow> world" where
  \<comment> \<open>lines 196-207, on the \<open>addedNodes\<close> of each record of the batch\<close>
  "observer_callback path mutations w =
     (case find (\<lambda>node. is_element node \<and> hasPaywallBar (Some node)) (concat mutations) of
        None \<Rightarrow> w
      | Some node \<Rightarrow>
          runPaywallCheck path (w\<lparr>observing := False, calls := calls w @ [Disconnect]\<rparr>))"

definition content_script :: "string \<Rightarrow> dom \<Rightarrow> world" where
  \<comment> \<open>lines 178-208: the script as it runs when the page has loaded; observing a missing
      body throws, and the script ends there\<close>
  "content_script path d =
     (let w = \<lparr>pg = \<lparr>document = d, console = []\<rparr>, observing = False, pending = False,
                calls = []\<rparr>
      in if \<not> isAlbumReviewPage path then w
         else if hasPaywallBar (document_body d) then runPaywallCheck path w
         else (case document_body d of
                 None \<Rightarrow> w
               | Some b \<Rightarrow> w\<lparr>observing := True\<rparr>))"

datatype event =
    Mutation dom "dom list list"
      \<comment> \<open>the page has changed to the given document; the batch of records, each with its
          added nodes\<close>
  | Settle fetch_outcome
      \<comment> \<open>the request has settled\<close>

fun step :: "host \<Rightarrow> string \<Rightarrow> world \<Rightarrow> event \<Rightarrow> world" where
  \<comment> \<open>a disconnected observer gets no batch; only a request under way can settle\<close>
  "step h path w (Mutation d mutations) =
     (let w1 = w\<lparr>pg := (pg w)\<lparr>document := d\<rparr>\<rparr>
      in if observing w1 then observer_callback path mutations w1 else w1)"
| "step h path w (Settle outcome) =
     (if pending w then w\<lparr>pg := enhancePaywalledPage h outcome (pg w), pending := False\<rparr>
      else w)"

definition run :: "host \<Rightarrow> string \<Rightarrow> dom \<Rightarrow> event list \<Rightarrow> world" where
  "run h path d evs = foldl (step h path) (content_script path d) evs"

definition watcher_inv :: "world \<Rightarrow> bool" where
  \<comment> \<open>the invariant of the script's state: what has been called so far\<close>
  "watcher_inv w =
     (if observing w then calls w = [] \<and> \<not> pending w
      else (calls w = [] \<and> \<not> pending w)
           \<or> (calls w = [PaywallCheck] \<and> \<not> pending w)
           \<or> calls w = [PaywallCheck, Fetch]
           \<or> (calls w = [Disconnect, PaywallCheck] \<and> \<not> pending w)
           \<or> calls w = [Disconnect, PaywallCheck, Fetch])"

section \<open>The end-to-end scenario of the specification\<close>

definition scenario_payload :: jsval where
  \<comment> \<open>\<open>{review:{body:[["p",["text"]]], headerProps:{musicRating:{score:7.8}}}}\<close>\<close>
  "scenario_payload =
     JObj [(''review'',
            JObj [(''body'', JArr [JArr [JStr ''p'', JArr [JStr ''text'']]]),
                  (''headerProps'',
                   JObj [(''musicRating'', JObj [(''score'', JNum 78 (- 1))])])])]"

definition scenario_path :: string where
  "scenario_path = ''/reviews/albums/some-album/''"

definition scenario_document :: dom where
  \<comment> \<open>a review page showing the score 0.0, blurred, with no barrier yet\<close>
  "scenario_document =
     Element ''html'' [] []
       [Element ''body'' [] []
          [Element ''div'' [(''class'', ''ScoreBoxWrapper-abc'')] []
             [Element ''div'' [(''class'', ''ScoreCircle-def'')] []
                [Element ''p'' [] ''blur(4px)'' [TextNode ''0.0'']]],
           Element ''div'' [(''data-testid'', ''BodyWrapper'')] [] [TextNode ''teaser'']]]"

definition scenario_barrier :: dom where
  "scenario_barrier =
     Element ''div'' []  []
       [Element ''a'' [(''class'', ''InContentBarrierFloatingBarLink-ghi'')] [] []]"

definition scenario_document_barred :: dom where
  \<comment> \<open>the page after the barrier has been put at the end of the body\<close>
  "scenario_document_barred =
     modify_at [0] (\<lambda>b. replaceChildren (childNodes b @ [scenario_barrier]) b) scenario_document"

definition scenario_host :: host where
  \<comment> \<open>a browser without \<open>Sanitizer\<close>; the parsers are fixed on the texts of the scenario\<close>
  "scenario_host =
     \<lparr>call_stack = 10000,
      JSON_parse = (\<lambda>s. if s = ''{scenario}'' then Some scenario_payload else None),
      Sanitizer = None,
      DOMParser = (\<lambda>s. if s = [] then [] else [TextNode s])\<rparr>"

definition scenario_response :: response where
  "scenario_response = \<lparr>ok = True, statusText = ''OK'', body_text = ''{scenario}''\<rparr>"

definition unconvertible_node :: jsval where
  \<comment> \<open>\<open>["p", {"v": {"toString": 1}}, "hi"]\<close>\<close>
  "unconvertible_node =
     JArr [JStr ''p'', JObj [(''v'', JObj [(''toString'', JNum 1 0)])], JStr ''hi'']"

definition bodiless_document :: dom where
  \<comment> \<open>a page with the score container and no body container\<close>
  "bodiless_document =
     Element ''html'' [] []
       [Element ''body'' [] []
          [Element ''div'' [(''class'', ''ScoreBoxWrapper-abc'')] []
             [Element ''div'' [(''class'', ''ScoreCircle-def'')] []
                [Element ''p'' [] ''blur(4px)'' [TextNode ''0.0'']]]]]"

definition scoreless_document :: dom where
  \<comment> \<open>a page with the body container and no score container\<close>
  "scoreless_document =
     Element ''html'' [] []
       [Element ''body'' [] []
          [Element ''div'' [(''data-testid'', ''BodyWrapper'')] [] [TextNode ''teaser'']]]"

section \<open>Escaping: proofs\<close>











section \<open>Markup reconstruction: proofs\<close>

lemma char_eq_code: "(c = d) = ((of_char c :: nat) = of_char d)"
  by simp

lemma lower_char_code:
  "(of_char (lower_char c) :: nat) =
     (let n = of_char c
      in if (65 \<le> n \<and> n \<le> 90) \<or> (192 \<le> n \<and> n \<le> 222 \<and> n \<noteq> 215) then n + 32 else n)"
proof -
  have n: "(of_char c :: nat) < 256" by simp
  then show ?thesis
    by (auto simp: lower_char_def Let_def)
qed

lemma lower_char_a: "lower_char c = CHR ''a'' \<longleftrightarrow> c = CHR ''a'' \<or> c = CHR ''A''"
  by (auto simp: char_eq_code [of _ "CHR ''a''"] char_eq_code [of _ "CHR ''A''"]
      lower_char_code Let_def)

lemma lower_char_d: "lower_char c = CHR ''d'' \<longleftrightarrow> c = CHR ''d'' \<or> c = CHR ''D''"
  by (auto simp: char_eq_code [of _ "CHR ''d''"] char_eq_code [of _ "CHR ''D''"]
      lower_char_code Let_def)

lemma includes_ad: "includes_str (toLowerCase s) ''ad'' = mentions_ad s"
  by (induction s rule: mentions_ad.induct)
     (auto simp: toLowerCase_def startsWith_def lower_char_a lower_char_d)

lemma mentions_ad_iff:
  "mentions_ad s \<longleftrightarrow>
     (\<exists>pre a d suf. s = pre @ a # d # suf \<and> (a = CHR ''a'' \<or> a = CHR ''A'')
        \<and> (d = CHR ''d'' \<or> d = CHR ''D''))"
proof (induction s rule: mentions_ad.induct)
  case (1 a d rest)
  show ?case
  proof
    assume "mentions_ad (a # d # rest)"
    then consider "(a = CHR ''a'' \<or> a = CHR ''A'') \<and> (d = CHR ''d'' \<or> d = CHR ''D'')"
      | "mentions_ad (d # rest)" by auto
    then show "\<exists>pre a' d' suf. a # d # rest = pre @ a' # d' # suf
        \<and> (a' = CHR ''a'' \<or> a' = CHR ''A'') \<and> (d' = CHR ''d'' \<or> d' = CHR ''D'')"
    proof cases
      case 1
      then have "a # d # rest = [] @ a # d # rest \<and> (a = CHR ''a'' \<or> a = CHR ''A'')
        \<and> (d = CHR ''d'' \<or> d = CHR ''D'')" by simp
      then show ?thesis by blast
    next
      case 2
      with "1.IH" obtain pre a' d' suf where
        e: "d # rest = pre @ a' # d' # suf" and
        c: "(a' = CHR ''a'' \<or> a' = CHR ''A'') \<and> (d' = CHR ''d'' \<or> d' = CHR ''D'')"
        by blast
      from e have "a # d # rest = (a # pre) @ a' # d' # suf" by simp
      with c show ?thesis by blast
    qed
  next
    assume "\<exists>pre a' d' suf. a # d # rest = pre @ a' # d' # suf
        \<and> (a' = CHR ''a'' \<or> a' = CHR ''A'') \<and> (d' = CHR ''d'' \<or> d' = CHR ''D'')"
    then obtain pre a' d' suf where
      e: "a # d # rest = pre @ a' # d' # suf" and
      c: "(a' = CHR ''a'' \<or> a' = CHR ''A'') \<and> (d' = CHR ''d'' \<or> d' = CHR ''D'')"
      by blast
    show "mentions_ad (a # d # rest)"
    proof (cases pre)
      case Nil
      with e c show ?thesis by auto
    next
      case (Cons x pre')
      with e have "d # rest = pre' @ a' # d' # suf" by simp
      with c "1.IH" have "mentions_ad (d # rest)" by blast
      then show ?thesis by simp
    qed
  qed
qed (auto simp: Cons_eq_append_conv)

lemma isAdNode_tag: "mentions_ad tag \<Longrightarrow> isAdNode (JStr tag) attrs"
  by (simp add: isAdNode_def includes_ad)

lemma isAdNode_position:
  "map_of kvs ''position'' = Some (JStr p) \<Longrightarrow> mentions_ad p \<Longrightarrow> isAdNode (JStr tag) (JObj kvs)"
  by (simp add: isAdNode_def includes_ad)

lemma isAdNode_iff:
  "isAdNode (JStr tag) (JObj kvs) \<longleftrightarrow>
     mentions_ad tag \<or> (\<exists>p. map_of kvs ''position'' = Some (JStr p) \<and> mentions_ad p)"
  by (auto simp: isAdNode_def includes_ad split: option.splits jsval.splits)

lemma bodyArrayToHtml_element:
  "bodyArrayToHtml d (JArr (JStr tag # rest)) =
     (case rest of
        JObj attrs # children \<Rightarrow>
          element_html d tag attrs
            (map (\<lambda>c. if d = 0 then Inl StackOverflow else bodyArrayToHtml (d - 1) c) children)
      | _ \<Rightarrow>
          element_html d tag []
            (map (\<lambda>c. if d = 0 then Inl StackOverflow else bodyArrayToHtml (d - 1) c) rest))"
proof (cases rest)
  case Nil
  then show ?thesis by simp
next
  case (Cons r rs)
  then show ?thesis by (cases r) simp_all
qed

lemma bodyArrayToHtml_nonstring_tag:
  "(\<forall>s. t \<noteq> JStr s) \<Longrightarrow> bodyArrayToHtml d (JArr (t # rest)) = Inr []"
  by (cases t) simp_all


text \<open>
  C4. A node whose tag name contains "ad" in any case, or whose attribute set (the plain
  object after the tag) has a \<open>position\<close> attribute whose string value contains "ad"
  in any case, renders as the empty string, whatever its children are: the reconstructor
  returns the empty string, and throws nothing.
\<close>

theorem ad_nodes_render_empty:
  "(mentions_ad tag \<longrightarrow> bodyArrayToHtml d (JArr (JStr tag # rest)) = Inr [])
   \<and> (map_of attrs ''position'' = Some (JStr p) \<and> mentions_ad p \<longrightarrow>
        bodyArrayToHtml d (JArr (JStr tag # JObj attrs # children)) = Inr [])"
  by (auto simp: bodyArrayToHtml_element element_html_def isAdNode_tag isAdNode_position
      split: list.splits jsval.splits)

theorem ad_nodes_render_empty_witness:
  "mentions_ad ''HeAder''
   \<and> bodyArrayToHtml 0 (JArr [JStr ''HeAder'', JArr [JStr ''p'', JStr ''text'']]) = Inr []
   \<and> map_of [(''position'', JStr ''top-AD-1'')] ''position'' = Some (JStr ''top-AD-1'')
   \<and> mentions_ad ''top-AD-1''
   \<and> bodyArrayToHtml 0
        (JArr [JStr ''div'', JObj [(''position'', JStr ''top-AD-1'')], JStr ''text'']) = Inr []"
  using ad_nodes_render_empty [of "''HeAder''" 0 "[JArr [JStr ''p'', JStr ''text'']]"]
    ad_nodes_render_empty [of "''div''" 0 "[]" "[(''position'', JStr ''top-AD-1'')]"
      "''top-AD-1''" "[JStr ''text'']"]
  by simp



lemma is_object_nesting: "is_object v \<Longrightarrow> 0 < nesting v"
  by (cases v) simp_all








lemma rendered_example:
  "bodyArrayToHtml 3
     (JArr [JStr ''p'', JObj [(''class'', JArr [JStr ''a'', JNum 1 0])], JStr ''text''])
   = Inr (''<p class='' @ [CHR 0x22] @ ''a,1'' @ [CHR 0x22] @ ''>text</p>'')"
  by code_simp

section \<open>The page: proofs\<close>

lemma matches_is_element: "matches sel n \<Longrightarrow> is_element n"
  by (cases n) simp_all

lemma find_node_sound:
  "find_node sel d = Some (p, n) \<Longrightarrow> node_at d p = Some n \<and> matches sel n"
  "find_nodes sel i cs = Some (p, n) \<Longrightarrow>
     \<exists>k q. p = (i + k) # q \<and> k < length cs \<and> node_at (cs ! k) q = Some n \<and> matches sel n"
proof (induction sel d and sel i cs arbitrary: p n and p n rule: find_node_find_nodes.induct)
  case (1 sel s)
  then show ?case by simp
next
  case (2 sel t as f cs)
  show ?case
  proof (cases "matches sel (Element t as f cs)")
    case True
    with "2.prems" show ?thesis by auto
  next
    case False
    with "2.prems" have "find_nodes sel 0 cs = Some (p, n)" by simp
    from "2.IH" [OF False this] show ?thesis by auto
  qed
next
  case (3 sel i)
  then show ?case by simp
next
  case (4 sel i c cs)
  show ?case
  proof (cases "find_node sel c")
    case None
    with "4.prems" have "find_nodes sel (Suc i) cs = Some (p, n)" by simp
    from "4.IH"(2) [OF None this] obtain k q where
      "p = (Suc i + k) # q" "k < length cs" "node_at (cs ! k) q = Some n" "matches sel n"
      by blast
    then have "p = (i + Suc k) # q \<and> Suc k < length (c # cs)
        \<and> node_at ((c # cs) ! Suc k) q = Some n \<and> matches sel n" by simp
    then show ?thesis by blast
  next
    case (Some r)
    obtain q m where r: "r = (q, m)" by (cases r)
    with Some "4.prems" have e: "p = i # q" "m = n" by simp_all
    from "4.IH"(1) [of q m] Some r have "node_at c q = Some m \<and> matches sel m" by simp
    with e have "p = (i + 0) # q \<and> 0 < length (c # cs)
        \<and> node_at ((c # cs) ! 0) q = Some n \<and> matches sel n" by simp
    then show ?thesis by blast
  qed
qed

lemma querySelector_sound:
  "querySelector sel d = Some (p, n) \<Longrightarrow> node_at d p = Some n \<and> matches sel n"
  by (simp add: querySelector_def find_node_sound)

lemma node_at_modify_at: "node_at (modify_at p g d) p = map_option g (node_at d p)"
  by (induction p g d rule: modify_at.induct) simp_all

lemma node_at_append:
  "node_at d (p @ q) = (case node_at d p of None \<Rightarrow> None | Some n \<Rightarrow> node_at n q)"
proof (induction d p rule: node_at.induct)
  case (1 d)
  show ?case by simp
next
  case (2 t as f cs i p)
  then show ?case by simp
next
  case (3 s i p)
  show ?case by simp
qed

lemma lastElementChild_Some:
  "lastElementChild el = Some i \<Longrightarrow> i < length (childNodes el) \<and> is_element (childNodes el ! i)"
proof -
  assume a: "lastElementChild el = Some i"
  let ?l = "filter (\<lambda>i. is_element (childNodes el ! i)) (rev [0 ..< length (childNodes el)])"
  from a obtain xs where e: "?l = i # xs"
    by (auto simp: lastElementChild_def split: list.splits)
  have "i \<in> set ?l" unfolding e by simp
  then show ?thesis by simp
qed

lemma deepest_last_innermost:
  "is_element el \<Longrightarrow>
     \<exists>e. node_at el (deepest_last el) = Some e \<and> is_element e \<and> lastElementChild e = None"
proof (induction el rule: deepest_last.induct)
  case (1 el)
  show ?case
  proof (cases "lastElementChild el")
    case None
    with "1.prems" show ?thesis by (simp add: deepest_last.simps [of el])
  next
    case (Some i)
    from lastElementChild_Some [OF Some]
    have i: "i < length (childNodes el)" and c: "is_element (childNodes el ! i)" by simp_all
    from "1.IH" [OF Some c] obtain e where
      e: "node_at (childNodes el ! i) (deepest_last (childNodes el ! i)) = Some e"
      "is_element e" "lastElementChild e = None" by blast
    from "1.prems" obtain t as f cs where el: "el = Element t as f cs" by (cases el) simp_all
    have "deepest_last el = i # deepest_last (childNodes el ! i)"
      using Some by (simp add: deepest_last.simps [of el])
    with e i el show ?thesis by simp
  qed
qed

lemma updatePageWithScore_found:
  assumes s: "score \<noteq> JNull" "score \<noteq> JUndefined"
    and q: "querySelector (AttrContains ''class'' ''ScoreBoxWrapper'') d = Some (p, w)"
    and t: "String_js n score = Inr t"
  shows "\<exists>el d2. node_at d (p @ deepest_last w) = Some el \<and> is_element el
      \<and> lastElementChild el = None
      \<and> updatePageWithScore n score d = Inr d2
      \<and> node_at d2 (p @ deepest_last w)
          = Some (set_style_filter ''blur(0px)'' (set_textContent t el))"
proof -
  let ?d2 = "modify_at (p @ deepest_last w)
        (\<lambda>el. set_style_filter ''blur(0px)'' (set_textContent t el)) d"
  from querySelector_sound [OF q] have w: "node_at d p = Some w" and m: "is_element w"
    by (auto dest: matches_is_element)
  from deepest_last_innermost [OF m] obtain el where
    el: "node_at w (deepest_last w) = Some el" "is_element el" "lastElementChild el = None"
    by blast
  from w el have a: "node_at d (p @ deepest_last w) = Some el" by (simp add: node_at_append)
  have u: "updatePageWithScore n score d = Inr ?d2"
    using s q t by (simp add: updatePageWithScore_def)
  from a have "node_at ?d2 (p @ deepest_last w)
      = Some (set_style_filter ''blur(0px)'' (set_textContent t el))"
    by (simp add: node_at_modify_at)
  with a el u show ?thesis by blast
qed

lemma written_element:
  "is_element el \<Longrightarrow> s \<noteq> [] \<Longrightarrow>
     childNodes (set_style_filter v (set_textContent s el)) = [TextNode s]
     \<and> textContent (set_style_filter v (set_textContent s el)) = s
     \<and> style_filter (set_style_filter v (set_textContent s el)) = v"
  by (cases el) simp_all

lemma numberToString_zero: "numberToString 0 e = ''0''"
  by (simp add: numberToString_def)


section \<open>Patching the page: proofs\<close>

lemma scenario_body:
  "and_prop (and_prop scenario_payload ''review'') ''body''
     = JArr [JArr [JStr ''p'', JArr [JStr ''text'']]]"
  by (simp add: scenario_payload_def and_prop_def)

lemma scenario_score: "review_score scenario_payload = JNum 78 (- 1)"
  by (simp add: scenario_payload_def review_score_def and_prop_def)

lemma numberToString_78: "numberToString 78 (- 1) = ''7.8''"
  by code_simp

lemma on_fulfilled_raises:
  assumes "and_prop (and_prop data ''review'') ''body'' = JArr xs"
    and "bodyArrayToHtml (call_stack h) (JArr xs) = Inl e"
  shows "on_fulfilled h data pa = (pa, Some e)"
  using assms by (simp add: on_fulfilled_def)

lemma on_fulfilled_no_body_wrapper:
  assumes "and_prop (and_prop data ''review'') ''body'' = JArr xs"
    and "bodyArrayToHtml (call_stack h) (JArr xs) = Inr html"
    and "querySelector (AttrEquals ''data-testid'' ''BodyWrapper'') (document pa) = None"
  shows "on_fulfilled h data pa
     = (pa\<lparr>console := console pa @ [WarnBodyWrapperNotFound]\<rparr>, None)"
  using assms by (simp add: on_fulfilled_def)

lemma on_fulfilled_body_wrapper:
  assumes "and_prop (and_prop data ''review'') ''body'' = JArr xs"
    and "bodyArrayToHtml (call_stack h) (JArr xs) = Inr html"
    and "querySelector (AttrEquals ''data-testid'' ''BodyWrapper'') (document pa) = Some (p, bw)"
  shows "on_fulfilled h data pa =
     (case updatePageWithScore (call_stack h) (review_score data)
             (case parsed_nodes h html of
                Some ns \<Rightarrow> modify_at p (replaceChildren ns) (document pa)
              | None \<Rightarrow> document pa) of
        Inl e \<Rightarrow>
          (pa\<lparr>document :=
                 (case parsed_nodes h html of
                    Some ns \<Rightarrow> modify_at p (replaceChildren ns) (document pa)
                  | None \<Rightarrow> document pa)\<rparr>, Some e)
      | Inr d2 \<Rightarrow> (pa\<lparr>document := d2\<rparr>, None))"
  using assms by (simp add: on_fulfilled_def Let_def)

lemma updatePageWithScore_no_wrapper:
  "querySelector (AttrContains ''class'' ''ScoreBoxWrapper'') d = None \<Longrightarrow>
     updatePageWithScore n score d = Inr d"
  by (simp add: updatePageWithScore_def)

text \<open>
  C10. The score restore does nothing for \<open>null\<close> and \<open>undefined\<close> only. For the score 0,
  when the score container is on the page, the innermost (deepest-last) element of the
  container gets the text \<open>0\<close> as its only child and the filter \<open>blur(0px)\<close>, and nothing
  is thrown.
\<close>

theorem score_zero_is_written:
  assumes "querySelector (AttrContains ''class'' ''ScoreBoxWrapper'') d = Some (p, w)"
  shows "updatePageWithScore n JNull d = Inr d \<and> updatePageWithScore n JUndefined d = Inr d
    \<and> (\<exists>el d2 el'. node_at d (p @ deepest_last w) = Some el \<and> is_element el
          \<and> lastElementChild el = None
          \<and> updatePageWithScore n (JNum 0 e) d = Inr d2
          \<and> node_at d2 (p @ deepest_last w) = Some el'
          \<and> childNodes el' = [TextNode ''0''] \<and> textContent el' = ''0''
          \<and> style_filter el' = ''blur(0px)'')"
proof -
  have z: "JNum 0 e \<noteq> JNull" "JNum 0 e \<noteq> JUndefined" by simp_all
  have s: "String_js n (JNum 0 e) = Inr ''0''" by (simp add: numberToString_zero)
  from updatePageWithScore_found [OF z assms s] obtain el d2 where
    el: "node_at d (p @ deepest_last w) = Some el" "is_element el" "lastElementChild el = None"
    "updatePageWithScore n (JNum 0 e) d = Inr d2"
    "node_at d2 (p @ deepest_last w)
       = Some (set_style_filter ''blur(0px)'' (set_textContent ''0'' el))"
    by blast
  from written_element [OF el(2), of "''0''" "''blur(0px)''"]
  have "childNodes (set_style_filter ''blur(0px)'' (set_textContent ''0'' el)) = [TextNode ''0'']
     \<and> textContent (set_style_filter ''blur(0px)'' (set_textContent ''0'' el)) = ''0''
     \<and> style_filter (set_style_filter ''blur(0px)'' (set_textContent ''0'' el)) = ''blur(0px)''"
    by simp
  with el have "\<exists>el d2 el'. node_at d (p @ deepest_last w) = Some el \<and> is_element el
          \<and> lastElementChild el = None
          \<and> updatePageWithScore n (JNum 0 e) d = Inr d2
          \<and> node_at d2 (p @ deepest_last w) = Some el'
          \<and> childNodes el' = [TextNode ''0''] \<and> textContent el' = ''0''
          \<and> style_filter el' = ''blur(0px)''"
    by blast
  then show ?thesis by (simp add: updatePageWithScore_def)
qed

theorem score_zero_is_written_witness:
  "\<exists>p w. querySelector (AttrContains ''class'' ''ScoreBoxWrapper'') scenario_document
        = Some (p, w)
    \<and> (\<exists>el d2 el'. node_at scenario_document (p @ deepest_last w) = Some el \<and> is_element el
          \<and> lastElementChild el = None
          \<and> updatePageWithScore 0 (JNum 0 0) scenario_document = Inr d2
          \<and> node_at d2 (p @ deepest_last w) = Some el'
          \<and> childNodes el' = [TextNode ''0''] \<and> textContent el' = ''0''
          \<and> style_filter el' = ''blur(0px)'')"
proof -
  have h: "querySelector (AttrContains ''class'' ''ScoreBoxWrapper'') scenario_document
     = Some ([0, 0], Element ''div'' [(''class'', ''ScoreBoxWrapper-abc'')] []
             [Element ''div'' [(''class'', ''ScoreCircle-def'')] []
                [Element ''p'' [] ''blur(4px)'' [TextNode ''0.0'']]])"
    by code_simp
  from score_zero_is_written [OF h, of 0 0] h show ?thesis by blast
qed

text \<open>
  C2, as the code has it. Once the markup has been reconstructed: when the body container
  is absent the callback warns and returns, and neither the body replacement nor the
  score restore is performed; when the body container is present and the score container
  is absent, the body replacement is performed and the score restore alone is skipped.
\<close>

theorem patch_with_missing_anchor:
  assumes "and_prop (and_prop data ''review'') ''body'' = JArr xs"
    and "bodyArrayToHtml (call_stack h) (JArr xs) = Inr html"
  shows "(querySelector (AttrEquals ''data-testid'' ''BodyWrapper'') (document pa) = None \<longrightarrow>
            on_fulfilled h data pa
              = (pa\<lparr>console := console pa @ [WarnBodyWrapperNotFound]\<rparr>, None))
    \<and> (querySelector (AttrEquals ''data-testid'' ''BodyWrapper'') (document pa) = Some (p, bw)
         \<and> parsed_nodes h html = Some ns
         \<and> querySelector (AttrContains ''class'' ''ScoreBoxWrapper'')
               (modify_at p (replaceChildren ns) (document pa)) = None \<longrightarrow>
            on_fulfilled h data pa
              = (pa\<lparr>document := modify_at p (replaceChildren ns) (document pa)\<rparr>, None))"
proof (intro conjI impI)
  assume "querySelector (AttrEquals ''data-testid'' ''BodyWrapper'') (document pa) = None"
  with assms show "on_fulfilled h data pa
      = (pa\<lparr>console := console pa @ [WarnBodyWrapperNotFound]\<rparr>, None)"
    by (rule on_fulfilled_no_body_wrapper)
next
  assume a: "querySelector (AttrEquals ''data-testid'' ''BodyWrapper'') (document pa) = Some (p, bw)
         \<and> parsed_nodes h html = Some ns
         \<and> querySelector (AttrContains ''class'' ''ScoreBoxWrapper'')
               (modify_at p (replaceChildren ns) (document pa)) = None"
  then have bw: "querySelector (AttrEquals ''data-testid'' ''BodyWrapper'') (document pa) = Some (p, bw)"
    by simp
  from a show "on_fulfilled h data pa
              = (pa\<lparr>document := modify_at p (replaceChildren ns) (document pa)\<rparr>, None)"
    by (simp add: on_fulfilled_body_wrapper [OF assms bw] updatePageWithScore_no_wrapper)
qed

theorem patch_with_missing_anchor_witness:
  "and_prop (and_prop scenario_payload ''review'') ''body''
      = JArr [JArr [JStr ''p'', JArr [JStr ''text'']]]
   \<and> bodyArrayToHtml (call_stack scenario_host) (JArr [JArr [JStr ''p'', JArr [JStr ''text'']]])
       = Inr []
   \<and> querySelector (AttrEquals ''data-testid'' ''BodyWrapper'') bodiless_document = None
   \<and> on_fulfilled scenario_host scenario_payload \<lparr>document = bodiless_document, console = []\<rparr>
       = (\<lparr>document = bodiless_document, console = [WarnBodyWrapperNotFound]\<rparr>, None)
   \<and> querySelector (AttrEquals ''data-testid'' ''BodyWrapper'') scoreless_document
       = Some ([0, 0], Element ''div'' [(''data-testid'', ''BodyWrapper'')] [] [TextNode ''teaser''])
   \<and> parsed_nodes scenario_host [] = Some []
   \<and> querySelector (AttrContains ''class'' ''ScoreBoxWrapper'')
         (modify_at [0, 0] (replaceChildren []) scoreless_document) = None
   \<and> on_fulfilled scenario_host scenario_payload \<lparr>document = scoreless_document, console = []\<rparr>
       = (\<lparr>document = modify_at [0, 0] (replaceChildren []) scoreless_document, console = []\<rparr>,
          None)"
proof -
  have b: "and_prop (and_prop scenario_payload ''review'') ''body''
      = JArr [JArr [JStr ''p'', JArr [JStr ''text'']]]" by (rule scenario_body)
  have r: "bodyArrayToHtml (call_stack scenario_host)
      (JArr [JArr [JStr ''p'', JArr [JStr ''text'']]]) = Inr []" by simp
  have q1: "querySelector (AttrEquals ''data-testid'' ''BodyWrapper'') bodiless_document = None"
    by code_simp
  have q2: "querySelector (AttrEquals ''data-testid'' ''BodyWrapper'') scoreless_document
       = Some ([0, 0], Element ''div'' [(''data-testid'', ''BodyWrapper'')] [] [TextNode ''teaser''])"
    by code_simp
  have n: "parsed_nodes scenario_host [] = Some []" by code_simp
  have q3: "querySelector (AttrContains ''class'' ''ScoreBoxWrapper'')
         (modify_at [0, 0] (replaceChildren []) scoreless_document) = None" by code_simp
  from patch_with_missing_anchor [OF b r,
        where pa = "\<lparr>document = bodiless_document, console = []\<rparr>"]
    patch_with_missing_anchor [OF b r,
        where pa = "\<lparr>document = scoreless_document, console = []\<rparr>"
          and p = "[0, 0]" and ns = "[]"
          and bw = "Element ''div'' [(''data-testid'', ''BodyWrapper'')] [] [TextNode ''teaser'']"]
    b r q1 q2 n q3
  show ?thesis by simp
qed

theorem missing_body_blocks_score_counterexample:
  "querySelector (AttrEquals ''data-testid'' ''BodyWrapper'') bodiless_document = None
   \<and> querySelector (AttrContains ''class'' ''ScoreBoxWrapper'') bodiless_document \<noteq> None
   \<and> on_fulfilled scenario_host scenario_payload \<lparr>document = bodiless_document, console = []\<rparr>
       = (\<lparr>document = bodiless_document, console = [WarnBodyWrapperNotFound]\<rparr>, None)
   \<and> \<not> isl (updatePageWithScore (call_stack scenario_host) (review_score scenario_payload)
              bodiless_document)
   \<and> updatePageWithScore (call_stack scenario_host) (review_score scenario_payload)
        bodiless_document \<noteq> Inr bodiless_document"
  by code_simp

lemma throwing_reconstruction_patches_nothing:
  "enhancePaywalledPage
     (scenario_host\<lparr>JSON_parse := \<lambda>s. Some (JObj [(''review'', JObj [(''body'', unconvertible_node)])])\<rparr>)
     (Responded scenario_response) \<lparr>document = scenario_document, console = []\<rparr>
   = \<lparr>document = scenario_document, console = [WarnFetchFailed TypeError]\<rparr>"
  by code_simp

text \<open>
  C1, as the code has it. In the scenario the reconstructor is applied to \<open>review.body\<close>
  as one node; its first entry is an array and not a tag name, so the reconstructed markup
  is the empty string, and the body container receives the nodes that the parser gives
  for the empty markup. The innermost (deepest-last) element of the score container then
  gets the text \<open>7.8\<close> as its only child and the filter \<open>blur(0px)\<close>, and nothing is thrown.
\<close>

theorem scenario_patch:
  assumes bw: "querySelector (AttrEquals ''data-testid'' ''BodyWrapper'') (document pa) = Some (p, bw)"
    and ns: "parsed_nodes h [] = Some ns"
    and sb: "querySelector (AttrContains ''class'' ''ScoreBoxWrapper'')
               (modify_at p (replaceChildren ns) (document pa)) = Some (q, w)"
  shows "bodyArrayToHtml (call_stack h) (and_prop (and_prop scenario_payload ''review'') ''body'')
        = Inr []
    \<and> node_at (modify_at p (replaceChildren ns) (document pa)) p = Some (replaceChildren ns bw)
    \<and> (\<exists>d2 el el'.
          updatePageWithScore (call_stack h) (JNum 78 (- 1))
              (modify_at p (replaceChildren ns) (document pa)) = Inr d2
          \<and> on_fulfilled h scenario_payload pa = (pa\<lparr>document := d2\<rparr>, None)
          \<and> node_at (modify_at p (replaceChildren ns) (document pa)) (q @ deepest_last w)
              = Some el
          \<and> is_element el \<and> lastElementChild el = None
          \<and> node_at d2 (q @ deepest_last w) = Some el'
          \<and> childNodes el' = [TextNode ''7.8''] \<and> textContent el' = ''7.8''
          \<and> style_filter el' = ''blur(0px)'')"
proof -
  let ?d1 = "modify_at p (replaceChildren ns) (document pa)"
  have html: "bodyArrayToHtml (call_stack h) (JArr [JArr [JStr ''p'', JArr [JStr ''text'']]])
      = Inr []" by simp
  from querySelector_sound [OF bw] have "node_at (document pa) p = Some bw" by simp
  then have at: "node_at ?d1 p = Some (replaceChildren ns bw)"
    by (simp add: node_at_modify_at)
  have z: "JNum 78 (- 1) \<noteq> JNull" "JNum 78 (- 1) \<noteq> JUndefined" by simp_all
  have s: "String_js (call_stack h) (JNum 78 (- 1)) = Inr ''7.8''"
    by (simp add: numberToString_78)
  from updatePageWithScore_found [OF z sb s] obtain el d2 where
    el: "node_at ?d1 (q @ deepest_last w) = Some el" "is_element el" "lastElementChild el = None"
    "updatePageWithScore (call_stack h) (JNum 78 (- 1)) ?d1 = Inr d2"
    "node_at d2 (q @ deepest_last w)
       = Some (set_style_filter ''blur(0px)'' (set_textContent ''7.8'' el))"
    by blast
  have doc: "on_fulfilled h scenario_payload pa = (pa\<lparr>document := d2\<rparr>, None)"
    using ns el(4)
    by (simp add: on_fulfilled_body_wrapper [OF scenario_body html bw] scenario_score)
  from written_element [OF el(2), of "''7.8''" "''blur(0px)''"]
  have "childNodes (set_style_filter ''blur(0px)'' (set_textContent ''7.8'' el)) = [TextNode ''7.8'']
     \<and> textContent (set_style_filter ''blur(0px)'' (set_textContent ''7.8'' el)) = ''7.8''
     \<and> style_filter (set_style_filter ''blur(0px)'' (set_textContent ''7.8'' el)) = ''blur(0px)''"
    by simp
  with el doc have "\<exists>d2 el el'.
          updatePageWithScore (call_stack h) (JNum 78 (- 1)) ?d1 = Inr d2
          \<and> on_fulfilled h scenario_payload pa = (pa\<lparr>document := d2\<rparr>, None)
          \<and> node_at ?d1 (q @ deepest_last w) = Some el
          \<and> is_element el \<and> lastElementChild el = None
          \<and> node_at d2 (q @ deepest_last w) = Some el'
          \<and> childNodes el' = [TextNode ''7.8''] \<and> textContent el' = ''7.8''
          \<and> style_filter el' = ''blur(0px)''"
    by blast
  with html at show ?thesis by (simp add: scenario_body)
qed

theorem scenario_patch_witness:
  "querySelector (AttrEquals ''data-testid'' ''BodyWrapper'') scenario_document_barred
     = Some ([0, 1], Element ''div'' [(''data-testid'', ''BodyWrapper'')] [] [TextNode ''teaser''])
   \<and> parsed_nodes scenario_host [] = Some []
   \<and> querySelector (AttrContains ''class'' ''ScoreBoxWrapper'')
         (modify_at [0, 1] (replaceChildren []) scenario_document_barred)
       = Some ([0, 0], Element ''div'' [(''class'', ''ScoreBoxWrapper-abc'')] []
             [Element ''div'' [(''class'', ''ScoreCircle-def'')] []
                [Element ''p'' [] ''blur(4px)'' [TextNode ''0.0'']]])
   \<and> node_at (modify_at [0, 1] (replaceChildren []) scenario_document_barred) [0, 1]
       = Some (Element ''div'' [(''data-testid'', ''BodyWrapper'')] [] [])
   \<and> (\<exists>d2 el'. on_fulfilled scenario_host scenario_payload
                 \<lparr>document = scenario_document_barred, console = []\<rparr>
              = (\<lparr>document = d2, console = []\<rparr>, None)
          \<and> node_at d2
              ([0, 0] @ deepest_last (Element ''div'' [(''class'', ''ScoreBoxWrapper-abc'')] []
                 [Element ''div'' [(''class'', ''ScoreCircle-def'')] []
                    [Element ''p'' [] ''blur(4px)'' [TextNode ''0.0'']]]))
              = Some el'
          \<and> childNodes el' = [TextNode ''7.8''] \<and> textContent el' = ''7.8''
          \<and> style_filter el' = ''blur(0px)'')"
proof -
  let ?pa = "\<lparr>document = scenario_document_barred, console = []\<rparr>"
  let ?bw = "Element ''div'' [(''data-testid'', ''BodyWrapper'')] [] [TextNode ''teaser'']"
  let ?w = "Element ''div'' [(''class'', ''ScoreBoxWrapper-abc'')] []
             [Element ''div'' [(''class'', ''ScoreCircle-def'')] []
                [Element ''p'' [] ''blur(4px)'' [TextNode ''0.0'']]]"
  have bw0: "querySelector (AttrEquals ''data-testid'' ''BodyWrapper'') scenario_document_barred
     = Some ([0, 1], ?bw)"
    by code_simp
  have ns: "parsed_nodes scenario_host [] = Some []" by code_simp
  have sb0: "querySelector (AttrContains ''class'' ''ScoreBoxWrapper'')
       (modify_at [0, 1] (replaceChildren []) scenario_document_barred) = Some ([0, 0], ?w)"
    by code_simp
  have bw: "querySelector (AttrEquals ''data-testid'' ''BodyWrapper'') (document ?pa)
     = Some ([0, 1], ?bw)"
    unfolding page.select_convs by (rule bw0)
  have sb: "querySelector (AttrContains ''class'' ''ScoreBoxWrapper'')
       (modify_at [0, 1] (replaceChildren []) (document ?pa)) = Some ([0, 0], ?w)"
    unfolding page.select_convs by (rule sb0)
  note r = scenario_patch [OF bw ns sb, unfolded page.select_convs page.update_convs]
  from r have a: "node_at (modify_at [0, 1] (replaceChildren []) scenario_document_barred) [0, 1]
       = Some (Element ''div'' [(''data-testid'', ''BodyWrapper'')] [] [])"
    by (simp only: replaceChildren.simps)
  from r obtain d2 el' where
    "on_fulfilled scenario_host scenario_payload ?pa = (\<lparr>document = d2, console = []\<rparr>, None)
       \<and> node_at d2 ([0, 0] @ deepest_last ?w) = Some el'
       \<and> childNodes el' = [TextNode ''7.8''] \<and> textContent el' = ''7.8''
       \<and> style_filter el' = ''blur(0px)''"
    by blast
  then have "\<exists>d2 el'. on_fulfilled scenario_host scenario_payload ?pa
         = (\<lparr>document = d2, console = []\<rparr>, None)
       \<and> node_at d2 ([0, 0] @ deepest_last ?w) = Some el'
       \<and> childNodes el' = [TextNode ''7.8''] \<and> textContent el' = ''7.8''
       \<and> style_filter el' = ''blur(0px)''"
    by blast
  with bw0 ns sb0 a show ?thesis by (intro conjI)
qed

theorem scenario_markup_counterexample:
  "bodyArrayToHtml (call_stack scenario_host)
      (and_prop (and_prop scenario_payload ''review'') ''body'') \<noteq> Inr ''<p>text</p>''
   \<and> bodyArrayToHtml (call_stack scenario_host)
      (and_prop (and_prop scenario_payload ''review'') ''body'') = Inr []"
  by (simp add: scenario_body)

lemma scenario_run:
  "run scenario_host scenario_path scenario_document
     [Mutation scenario_document_barred [[scenario_barrier]], Settle (Responded scenario_response)]
   = \<lparr>pg = \<lparr>document =
              Element ''html'' [] []
                [Element ''body'' [] []
                   [Element ''div'' [(''class'', ''ScoreBoxWrapper-abc'')] []
                      [Element ''div'' [(''class'', ''ScoreCircle-def'')] []
                         [Element ''p'' [] ''blur(0px)'' [TextNode ''7.8'']]],
                    Element ''div'' [(''data-testid'', ''BodyWrapper'')] [] [],
                    scenario_barrier]],
            console = []\<rparr>,
      observing = False, pending = False, calls = [Disconnect, PaywallCheck, Fetch]\<rparr>"
  by code_simp

text \<open>
  C9. The pipeline applies the reconstructor to the whole \<open>review.body\<close> array as one
  node, whose tag is its first entry. When that entry is not a string the markup is the
  empty string, and the body container is left without content (the parser gives no node
  for the empty markup) before the score restore runs.
\<close>

theorem body_list_renders_empty:
  assumes body: "and_prop (and_prop data ''review'') ''body'' = JArr (x # xs)"
    and x: "\<forall>s. x \<noteq> JStr s"
    and bw: "querySelector (AttrEquals ''data-testid'' ''BodyWrapper'') (document pa) = Some (p, bw)"
    and ns: "parsed_nodes h [] = Some []"
  shows "bodyArrayToHtml (call_stack h) (and_prop (and_prop data ''review'') ''body'') = Inr []
    \<and> on_fulfilled h data pa
        = (case updatePageWithScore (call_stack h) (review_score data)
                  (modify_at p (replaceChildren []) (document pa)) of
             Inl e \<Rightarrow> (pa\<lparr>document := modify_at p (replaceChildren []) (document pa)\<rparr>, Some e)
           | Inr d2 \<Rightarrow> (pa\<lparr>document := d2\<rparr>, None))
    \<and> (\<exists>el. node_at (modify_at p (replaceChildren []) (document pa)) p = Some el
          \<and> is_element el \<and> childNodes el = [])"
proof -
  have html: "bodyArrayToHtml (call_stack h) (JArr (x # xs)) = Inr []"
    using x by (rule bodyArrayToHtml_nonstring_tag)
  have doc: "on_fulfilled h data pa
        = (case updatePageWithScore (call_stack h) (review_score data)
                  (modify_at p (replaceChildren []) (document pa)) of
             Inl e \<Rightarrow> (pa\<lparr>document := modify_at p (replaceChildren []) (document pa)\<rparr>, Some e)
           | Inr d2 \<Rightarrow> (pa\<lparr>document := d2\<rparr>, None))"
    using ns by (simp add: on_fulfilled_body_wrapper [OF body html bw] split: sum.splits)
  from querySelector_sound [OF bw] have at: "node_at (document pa) p = Some bw"
    and el: "is_element bw" by (auto dest: matches_is_element)
  from at have "node_at (modify_at p (replaceChildren []) (document pa)) p
      = Some (replaceChildren [] bw)" by (simp add: node_at_modify_at)
  moreover from el have "is_element (replaceChildren [] bw) \<and> childNodes (replaceChildren [] bw) = []"
    by (cases bw) simp_all
  ultimately have "\<exists>el. node_at (modify_at p (replaceChildren []) (document pa)) p = Some el
          \<and> is_element el \<and> childNodes el = []" by simp
  with html doc body show ?thesis by simp
qed

theorem body_list_renders_empty_witness:
  "and_prop (and_prop scenario_payload ''review'') ''body''
      = JArr (JArr [JStr ''p'', JArr [JStr ''text'']] # [])
   \<and> (\<forall>s. JArr [JStr ''p'', JArr [JStr ''text'']] \<noteq> JStr s)
   \<and> querySelector (AttrEquals ''data-testid'' ''BodyWrapper'') scenario_document
       = Some ([0, 1], Element ''div'' [(''data-testid'', ''BodyWrapper'')] [] [TextNode ''teaser''])
   \<and> parsed_nodes scenario_host [] = Some []
   \<and> bodyArrayToHtml (call_stack scenario_host)
        (and_prop (and_prop scenario_payload ''review'') ''body'') = Inr []
   \<and> (\<exists>el. node_at (modify_at [0, 1] (replaceChildren []) scenario_document) [0, 1] = Some el
          \<and> is_element el \<and> childNodes el = [])"
proof -
  let ?pa = "\<lparr>document = scenario_document, console = []\<rparr>"
  let ?bw = "Element ''div'' [(''data-testid'', ''BodyWrapper'')] [] [TextNode ''teaser'']"
  have b: "and_prop (and_prop scenario_payload ''review'') ''body''
      = JArr (JArr [JStr ''p'', JArr [JStr ''text'']] # [])" by (rule scenario_body)
  have x: "\<forall>s. JArr [JStr ''p'', JArr [JStr ''text'']] \<noteq> JStr s" by simp
  have bw0: "querySelector (AttrEquals ''data-testid'' ''BodyWrapper'') scenario_document
     = Some ([0, 1], ?bw)" by code_simp
  have bw: "querySelector (AttrEquals ''data-testid'' ''BodyWrapper'') (document ?pa)
     = Some ([0, 1], ?bw)" unfolding page.select_convs by (rule bw0)
  have ns: "parsed_nodes scenario_host [] = Some []" by code_simp
  note r = body_list_renders_empty [OF b x bw ns, unfolded page.select_convs]
  from r have h: "bodyArrayToHtml (call_stack scenario_host)
        (and_prop (and_prop scenario_payload ''review'') ''body'') = Inr []"
    and e: "\<exists>el. node_at (modify_at [0, 1] (replaceChildren []) scenario_document) [0, 1] = Some el
          \<and> is_element el \<and> childNodes el = []"
    by blast+
  from b x bw0 ns h e show ?thesis by (intro conjI)
qed

section \<open>Fetching and watching: proofs\<close>

lemma startsWith_lt: "startsWith s ''<'' \<longleftrightarrow> (\<exists>rest. s = CHR ''<'' # rest)"
  by (cases s) (auto simp: startsWith_def)

lemma fetchReviewJson_rejects_iff:
  "isl (fst (fetchReviewJson h (Responded r))) \<longleftrightarrow>
     \<not> ok r \<or> trim (body_text r) = [] \<or> (\<exists>rest. trim (body_text r) = CHR ''<'' # rest)
     \<or> JSON_parse h (trim (body_text r)) = None"
  by (auto simp: fetchReviewJson_def Let_def startsWith_lt split: option.splits)

lemma enhancePaywalledPage_rejected:
  "fst (fetchReviewJson h outcome) = Inl err \<Longrightarrow>
     enhancePaywalledPage h outcome pa
       = pa\<lparr>console := console pa @ snd (fetchReviewJson h outcome) @ [WarnFetchFailed err]\<rparr>"
  by (cases "fetchReviewJson h outcome") (simp add: enhancePaywalledPage_def on_rejected_def)

text \<open>
  C6. For a response that has arrived, the promise of the fetcher is rejected exactly when
  the status is not a success, or the trimmed body text is empty or begins with \<open><\<close>, or
  \<open>JSON.parse\<close> throws on it; a network failure rejects it too. Every rejection reaches
  the one \<open>catch\<close> handler, which writes a warning and changes nothing on the page; the
  settling of the request makes no further call, so nothing is retried.
\<close>

theorem fetch_failures:
  "(isl (fst (fetchReviewJson h (Responded r))) \<longleftrightarrow>
      \<not> ok r \<or> trim (body_text r) = [] \<or> (\<exists>rest. trim (body_text r) = CHR ''<'' # rest)
      \<or> JSON_parse h (trim (body_text r)) = None)
   \<and> isl (fst (fetchReviewJson h NetworkFailure))
   \<and> (fst (fetchReviewJson h outcome) = Inl err \<longrightarrow>
        document (enhancePaywalledPage h outcome pa) = document pa
        \<and> console (enhancePaywalledPage h outcome pa)
            = console pa @ snd (fetchReviewJson h outcome) @ [WarnFetchFailed err])
   \<and> calls (step h path w (Settle outcome)) = calls w
   \<and> \<not> pending (step h path w (Settle outcome))"
  by (simp add: fetchReviewJson_rejects_iff enhancePaywalledPage_rejected)
     (simp add: fetchReviewJson_def)

theorem fetch_failures_witness:
  "fst (fetchReviewJson scenario_host
          (Responded \<lparr>ok = True, statusText = ''OK'', body_text = '' <!DOCTYPE html>''\<rparr>))
     = Inl NonJsonResponse
   \<and> document (enhancePaywalledPage scenario_host
          (Responded \<lparr>ok = True, statusText = ''OK'', body_text = '' <!DOCTYPE html>''\<rparr>)
          \<lparr>document = scenario_document, console = []\<rparr>) = scenario_document
   \<and> console (enhancePaywalledPage scenario_host
          (Responded \<lparr>ok = True, statusText = ''OK'', body_text = '' <!DOCTYPE html>''\<rparr>)
          \<lparr>document = scenario_document, console = []\<rparr>)
       = [WarnNotJson ''<!DOCTYPE html>'', WarnFetchFailed NonJsonResponse]"
proof -
  let ?out = "Responded \<lparr>ok = True, statusText = ''OK'', body_text = '' <!DOCTYPE html>''\<rparr>"
  let ?pa = "\<lparr>document = scenario_document, console = []\<rparr>"
  have t: "trim '' <!DOCTYPE html>'' = ''<!DOCTYPE html>''" by code_simp
  have f: "fetchReviewJson scenario_host ?out = (Inl NonJsonResponse, [WarnNotJson ''<!DOCTYPE html>''])"
    by (simp add: fetchReviewJson_def t startsWith_def)
  then have e: "fst (fetchReviewJson scenario_host ?out) = Inl NonJsonResponse" by simp
  from fetch_failures [of scenario_host _ ?out NonJsonResponse ?pa] e
  have "document (enhancePaywalledPage scenario_host ?out ?pa) = document ?pa
        \<and> console (enhancePaywalledPage scenario_host ?out ?pa)
            = console ?pa @ snd (fetchReviewJson scenario_host ?out) @ [WarnFetchFailed NonJsonResponse]"
    by blast
  with e f show ?thesis by simp
qed

lemma runPaywallCheck_effect:
  "observing (runPaywallCheck path w) = observing w
   \<and> (calls (runPaywallCheck path w) = calls w @ [PaywallCheck]
        \<and> pending (runPaywallCheck path w) = pending w
      \<or> calls (runPaywallCheck path w) = calls w @ [PaywallCheck, Fetch])"
  by (simp add: runPaywallCheck_def Let_def)

lemma content_script_inv: "watcher_inv (content_script path d)"
proof -
  let ?w = "\<lparr>pg = \<lparr>document = d, console = []\<rparr>, observing = False, pending = False,
                calls = []\<rparr>"
  from runPaywallCheck_effect [of path ?w] have "watcher_inv (runPaywallCheck path ?w)"
    by (auto simp: watcher_inv_def)
  then show ?thesis
    by (auto simp: content_script_def Let_def watcher_inv_def split: option.splits)
qed

lemma observer_callback_inv:
  assumes "watcher_inv w" and "observing w"
  shows "watcher_inv (observer_callback path mutations w)"
proof (cases "find (\<lambda>node. is_element node \<and> hasPaywallBar (Some node)) (concat mutations)")
  case None
  with assms show ?thesis by (simp add: observer_callback_def)
next
  case (Some node)
  let ?w = "w\<lparr>observing := False, calls := calls w @ [Disconnect]\<rparr>"
  from assms have c: "calls ?w = [Disconnect]" "\<not> pending ?w" "\<not> observing ?w"
    by (simp_all add: watcher_inv_def)
  from runPaywallCheck_effect [of path ?w] c have "watcher_inv (runPaywallCheck path ?w)"
    by (auto simp: watcher_inv_def)
  with Some show ?thesis by (simp add: observer_callback_def)
qed

lemma step_inv: "watcher_inv w \<Longrightarrow> watcher_inv (step h path w ev)"
proof (cases ev)
  case (Mutation d mutations)
  assume i: "watcher_inv w"
  let ?w1 = "w\<lparr>pg := (pg w)\<lparr>document := d\<rparr>\<rparr>"
  from i have i1: "watcher_inv ?w1" by (simp add: watcher_inv_def)
  show ?thesis
  proof (cases "observing w")
    case True
    then have "observing ?w1" by simp
    from observer_callback_inv [OF i1 this, of path mutations] True Mutation
    show ?thesis by (simp add: Let_def)
  next
    case False
    with i1 Mutation show ?thesis by (simp add: Let_def)
  qed
next
  case (Settle outcome)
  assume "watcher_inv w"
  with Settle show ?thesis by (auto simp: watcher_inv_def)
qed

lemma foldl_step_inv: "watcher_inv w \<Longrightarrow> watcher_inv (foldl (step h path) w evs)"
  by (induction evs arbitrary: w) (simp_all add: step_inv)

lemma run_inv: "watcher_inv (run h path d evs)"
  by (simp add: run_def foldl_step_inv content_script_inv)

text \<open>
  C5. Whatever the page does after the script has started, the calls the script makes are
  one of: none; the paywall check, with or without the request (the barrier was there
  at the start, and no observer was set up); or the disconnection of the observer, then
  the paywall check, then at most the request. So the observer is disconnected before the
  check runs, it is connected only as long as nothing has been called, and the check and
  the request are made at most once.
\<close>

theorem watcher_runs_once:
  "calls (run h path d evs)
     \<in> {[], [PaywallCheck], [PaywallCheck, Fetch],
        [Disconnect, PaywallCheck], [Disconnect, PaywallCheck, Fetch]}
   \<and> (observing (run h path d evs) \<longrightarrow> calls (run h path d evs) = [])
   \<and> count_list (calls (run h path d evs)) PaywallCheck \<le> 1
   \<and> count_list (calls (run h path d evs)) Fetch \<le> 1
   \<and> count_list (calls (run h path d evs)) Disconnect \<le> 1"
proof -
  from run_inv [of h path d evs] have
    "calls (run h path d evs)
       \<in> {[], [PaywallCheck], [PaywallCheck, Fetch],
          [Disconnect, PaywallCheck], [Disconnect, PaywallCheck, Fetch]}"
    and "observing (run h path d evs) \<longrightarrow> calls (run h path d evs) = []"
    by (auto simp: watcher_inv_def split: if_splits)
  then show ?thesis by auto
qed

theorem watcher_runs_once_witness:
  "observing (run scenario_host scenario_path scenario_document [])
   \<and> calls (run scenario_host scenario_path scenario_document []) = []
   \<and> calls (run scenario_host scenario_path scenario_document
        [Mutation scenario_document_barred [[scenario_barrier]],
         Mutation scenario_document_barred [[scenario_barrier]]])
      = [Disconnect, PaywallCheck, Fetch]"
proof -
  have o: "observing (run scenario_host scenario_path scenario_document [])" by code_simp
  have c: "calls (run scenario_host scenario_path scenario_document
        [Mutation scenario_document_barred [[scenario_barrier]],
         Mutation scenario_document_barred [[scenario_barrier]]])
      = [Disconnect, PaywallCheck, Fetch]" by code_simp
  from watcher_runs_once [of scenario_host scenario_path scenario_document "[]"] o c
  show ?thesis by blast
qed

section \<open>Score parsing: proofs\<close>

lemma is_digit_word: "is_digit c \<Longrightarrow> is_word c"
  by (simp add: is_digit_def is_word_def Let_def)

lemma is_digit_literals: "is_digit CHR ''1''" "is_digit CHR ''0''" "\<not> is_digit CHR ''.''"
  by (simp_all add: is_digit_def)

lemma is_token_cases:
  "is_token tok \<longleftrightarrow>
     tok = ''10.0'' \<or> tok = ''10'' \<or> (\<exists>a c. tok = [a, CHR ''.'', c] \<and> is_digit a \<and> is_digit c)"
  by (auto simp: is_token_def split: list.splits)

lemma is_token_head: "is_token tok \<Longrightarrow> tok \<noteq> [] \<and> is_word (hd tok)"
  by (auto simp: is_token_cases is_digit_word is_digit_literals)

lemma startsWith_iff: "startsWith s t \<longleftrightarrow> (\<exists>rest. s = t @ rest)"
proof
  assume "startsWith s t"
  then have "s = t @ drop (length t) s"
    by (metis append_take_drop_id startsWith_def)
  then show "\<exists>rest. s = t @ rest" ..
next
  assume "\<exists>rest. s = t @ rest"
  then show "startsWith s t" by (auto simp: startsWith_def)
qed

lemma alternatives_iff:
  "tok \<in> set (alternatives s) \<longleftrightarrow> is_token tok \<and> startsWith s tok"
proof
  assume "tok \<in> set (alternatives s)"
  then show "is_token tok \<and> startsWith s tok"
    by (auto simp: alternatives_def is_token_cases startsWith_def split: if_splits list.splits)
next
  assume a: "is_token tok \<and> startsWith s tok"
  then consider "tok = ''10.0''" | "tok = ''10''"
    | a c where "tok = [a, CHR ''.'', c]" "is_digit a" "is_digit c"
    by (auto simp: is_token_cases)
  then show "tok \<in> set (alternatives s)"
  proof cases
    case 1
    with a show ?thesis by (simp add: alternatives_def)
  next
    case 2
    with a show ?thesis by (simp add: alternatives_def)
  next
    case 3
    with a obtain rest where "s = a # CHR ''.'' # c # rest"
      by (auto simp: startsWith_iff)
    with 3 show ?thesis by (simp add: alternatives_def)
  qed
qed

lemma boundary_after_append:
  "boundary_after tok (tok @ suf) \<longleftrightarrow> suf = [] \<or> \<not> is_word (hd suf)"
  by (cases suf) (simp_all add: boundary_after_def)

lemma head_found:
  assumes "c # cs = tok @ suf" and "bounded_from pw [] tok suf"
  shows "pw \<noteq> is_word c
    \<and> find (\<lambda>tok. boundary_after tok (c # cs)) (alternatives (c # cs)) \<noteq> None"
proof -
  from assms have t: "is_token tok" and pw: "\<not> pw" and b: "suf = [] \<or> \<not> is_word (hd suf)"
    by (simp_all add: bounded_from_def)
  from is_token_head [OF t] assms(1) have "is_word c" by (cases tok) auto
  moreover from t assms(1) have "tok \<in> set (alternatives (c # cs))"
    by (auto simp: alternatives_iff startsWith_iff)
  moreover from b assms(1) have "boundary_after tok (c # cs)"
    by (simp add: boundary_after_append)
  ultimately show ?thesis using pw by (auto simp: find_None_iff)
qed

lemma head_sound:
  assumes "find (\<lambda>tok. boundary_after tok s) (alternatives s) = Some tok" and "\<not> pw"
  shows "\<exists>suf. s = tok @ suf \<and> bounded_from pw [] tok suf"
proof -
  from assms(1) have "tok \<in> set (alternatives s)" and b: "boundary_after tok s"
    by (auto simp: find_Some_iff)
  then have t: "is_token tok" and "startsWith s tok" by (simp_all add: alternatives_iff)
  then obtain suf where s: "s = tok @ suf" by (auto simp: startsWith_iff)
  with b have "suf = [] \<or> \<not> is_word (hd suf)" by (simp add: boundary_after_append)
  with t s assms(2) show ?thesis by (auto simp: bounded_from_def)
qed

lemma search_from_None:
  "search_from pw s = None \<Longrightarrow> s = pre @ tok @ suf \<Longrightarrow> \<not> bounded_from pw pre tok suf"
proof (induction s arbitrary: pw pre)
  case Nil
  then show ?case by (auto simp: bounded_from_def dest: is_token_head)
next
  case (Cons c cs)
  let ?head = "if pw \<noteq> is_word c
      then find (\<lambda>tok. boundary_after tok (c # cs)) (alternatives (c # cs)) else None"
  from Cons.prems(1) have h: "?head = None" and r: "search_from (is_word c) cs = None"
    by (auto split: option.splits if_splits)
  show ?case
  proof (cases pre)
    case Nil
    show ?thesis
    proof
      assume "bounded_from pw pre tok suf"
      with Nil Cons.prems(2) head_found [of c cs tok suf pw] h show False by auto
    qed
  next
    case (Cons x pre')
    with Cons.prems(2) have x: "x = c" and cs: "cs = pre' @ tok @ suf" by simp_all
    from Cons.IH [OF r cs] have "\<not> bounded_from (is_word c) pre' tok suf" .
    with Cons x show ?thesis by (auto simp: bounded_from_def)
  qed
qed

lemma search_from_Some:
  "search_from pw s = Some tok \<Longrightarrow>
     \<exists>pre suf. s = pre @ tok @ suf \<and> bounded_from pw pre tok suf
       \<and> (\<forall>pre' tok' suf'. s = pre' @ tok' @ suf' \<and> bounded_from pw pre' tok' suf'
            \<longrightarrow> length pre \<le> length pre')"
proof (induction s arbitrary: pw)
  case Nil
  then show ?case by simp
next
  case (Cons c cs)
  let ?head = "if pw \<noteq> is_word c
      then find (\<lambda>tok. boundary_after tok (c # cs)) (alternatives (c # cs)) else None"
  show ?case
  proof (cases ?head)
    case (Some t)
    with Cons.prems have t: "t = tok" by simp
    from Some have f: "find (\<lambda>tok. boundary_after tok (c # cs)) (alternatives (c # cs)) = Some tok"
      and ne: "pw \<noteq> is_word c" unfolding t by (auto split: if_splits)
    from f have "tok \<in> set (alternatives (c # cs))" by (auto simp: find_Some_iff)
    then have "is_token tok" "startsWith (c # cs) tok" by (simp_all add: alternatives_iff)
    with is_token_head [of tok] have "is_word c" by (cases tok) (auto simp: startsWith_iff)
    with ne have "\<not> pw" by simp
    from head_sound [OF f this] obtain suf where
      "c # cs = [] @ tok @ suf \<and> bounded_from pw [] tok suf" by auto
    then have "c # cs = [] @ tok @ suf \<and> bounded_from pw [] tok suf
       \<and> (\<forall>pre' tok' suf'. c # cs = pre' @ tok' @ suf' \<and> bounded_from pw pre' tok' suf'
            \<longrightarrow> length ([]::string) \<le> length pre')" by simp
    then show ?thesis by blast
  next
    case None
    with Cons.prems have r: "search_from (is_word c) cs = Some tok" by simp
    from Cons.IH [OF r] obtain pre suf where
      cs: "cs = pre @ tok @ suf" and b: "bounded_from (is_word c) pre tok suf"
      and least: "\<forall>pre' tok' suf'. cs = pre' @ tok' @ suf' \<and> bounded_from (is_word c) pre' tok' suf'
            \<longrightarrow> length pre \<le> length pre'"
      by blast
    have 1: "c # cs = (c # pre) @ tok @ suf" using cs by simp
    have 2: "bounded_from pw (c # pre) tok suf" using b by (auto simp: bounded_from_def)
    have 3: "\<forall>pre' tok' suf'. c # cs = pre' @ tok' @ suf' \<and> bounded_from pw pre' tok' suf'
            \<longrightarrow> length (c # pre) \<le> length pre'"
    proof (intro allI impI)
      fix pre' tok' suf'
      assume a: "c # cs = pre' @ tok' @ suf' \<and> bounded_from pw pre' tok' suf'"
      show "length (c # pre) \<le> length pre'"
      proof (cases pre')
        case Nil
        with a head_found [of c cs tok' suf' pw] None show ?thesis by auto
      next
        case (Cons x p')
        with a have "cs = p' @ tok' @ suf'" and "x = c" by simp_all
        moreover from a Cons \<open>x = c\<close> have "bounded_from (is_word c) p' tok' suf'"
          by (auto simp: bounded_from_def)
        ultimately have "length pre \<le> length p'" using least by blast
        with Cons show ?thesis by simp
      qed
    qed
    from 1 2 3 show ?thesis by blast
  qed
qed

lemma bounded_from_False: "bounded_from False pre tok suf = bounded_token pre tok suf"
  by (auto simp: bounded_from_def bounded_token_def)

lemma digit_val_range: "is_digit c \<Longrightarrow> 0 \<le> digit_val c \<and> digit_val c \<le> 9"
  by (auto simp: is_digit_def digit_val_def Let_def)

lemma parseFloat_digit_point_digit:
  "is_digit a \<Longrightarrow> is_digit c \<Longrightarrow>
     parseFloat [a, CHR ''.'', c] = (10 * digit_val a + digit_val c, - 1)"
  by (simp add: parseFloat_def is_digit_literals)

lemma parseFloat_ten: "parseFloat ''10.0'' = (100, - 1)" "parseFloat ''10'' = (10, 0)"
  by (simp_all add: parseFloat_def is_digit_literals digit_val_def)

lemma parseFloat_token_range:
  assumes "is_token tok"
  shows "num_le (0, 0) (parseFloat tok) \<and> num_le (parseFloat tok) (10, 0)"
proof -
  from assms consider "tok = ''10.0''" | "tok = ''10''"
    | a c where "tok = [a, CHR ''.'', c]" "is_digit a" "is_digit c"
    by (auto simp: is_token_cases)
  then show ?thesis
  proof cases
    case 1
    then show ?thesis by (simp add: parseFloat_ten num_le_def)
  next
    case 2
    then show ?thesis by (simp add: parseFloat_ten num_le_def)
  next
    case 3
    with digit_val_range [of a] digit_val_range [of c] show ?thesis
      by (simp add: parseFloat_digit_point_digit num_le_def)
  qed
qed

lemma find_SomeD: "find P xs = Some x \<Longrightarrow> x \<in> set xs \<and> P x"
  by (induction xs) (auto split: if_splits)

lemma exact_match_Some: "exact_match s = Some tok \<longleftrightarrow> tok = s \<and> is_token s"
proof
  assume "exact_match s = Some tok"
  then have "tok \<in> set (alternatives s)" "tok = s"
    by (auto simp: exact_match_def dest: find_SomeD)
  then show "tok = s \<and> is_token s" by (simp add: alternatives_iff)
next
  assume a: "tok = s \<and> is_token s"
  then have "s \<in> set (alternatives s)" by (simp add: alternatives_iff startsWith_def)
  then have "find (\<lambda>tok. tok = s) (alternatives s) \<noteq> None" by (auto simp: find_None_iff)
  then obtain x where x: "find (\<lambda>tok. tok = s) (alternatives s) = Some x" by auto
  then have "x = s" by (auto dest: find_SomeD)
  with x a show "exact_match s = Some tok" by (simp add: exact_match_def)
qed

lemma matched_token:
  "(case exact_match s of Some tok \<Rightarrow> Some tok | None \<Rightarrow> search_match s) = Some tok \<Longrightarrow>
     \<exists>pre suf. s = pre @ tok @ suf \<and> bounded_token pre tok suf
       \<and> (\<forall>pre' tok' suf'. s = pre' @ tok' @ suf' \<and> bounded_token pre' tok' suf'
            \<longrightarrow> length pre \<le> length pre')"
proof (cases "exact_match s")
  case None
  assume "(case exact_match s of Some tok \<Rightarrow> Some tok | None \<Rightarrow> search_match s) = Some tok"
  with None have "search_from False s = Some tok" by (simp add: search_match_def)
  from search_from_Some [OF this] show ?thesis by (simp add: bounded_from_False)
next
  case (Some t)
  assume "(case exact_match s of Some tok \<Rightarrow> Some tok | None \<Rightarrow> search_match s) = Some tok"
  with Some have "exact_match s = Some tok" by simp
  then have "tok = s" "is_token s" by (simp_all add: exact_match_Some)
  then have "s = [] @ tok @ [] \<and> bounded_token [] tok []
       \<and> (\<forall>pre' tok' suf'. s = pre' @ tok' @ suf' \<and> bounded_token pre' tok' suf'
            \<longrightarrow> length ([]::string) \<le> length pre')"
    by (simp add: bounded_token_def)
  then show ?thesis by blast
qed

lemma unmatched_token:
  "(case exact_match s of Some tok \<Rightarrow> Some tok | None \<Rightarrow> search_match s) = None \<Longrightarrow>
     s = pre @ tok @ suf \<Longrightarrow> \<not> bounded_token pre tok suf"
proof -
  assume a: "(case exact_match s of Some tok \<Rightarrow> Some tok | None \<Rightarrow> search_match s) = None"
    and s: "s = pre @ tok @ suf"
  from a have "search_from False s = None"
    by (auto simp: search_match_def split: option.splits)
  from search_from_None [OF this s] show ?thesis by (simp add: bounded_from_False)
qed

lemma parseScoreText_cases:
  "parseScoreText text =
     (case (case exact_match (trim (collapse_spaces text)) of
              Some tok \<Rightarrow> Some tok
            | None \<Rightarrow> search_match (trim (collapse_spaces text))) of
        None \<Rightarrow> None
      | Some tok \<Rightarrow>
          if num_le (0, 0) (parseFloat tok) \<and> num_le (parseFloat tok) (10, 0)
          then Some (parseFloat tok) else None)"
  by (simp add: parseScoreText_def Let_def split: option.splits)

text \<open>
  C3, as the code has it. The parser gives a number exactly when the cleaned text (white
  space collapsed and trimmed) holds a token \<open>10.0\<close>, \<open>10\<close> or digit-point-digit with no
  word character right before or after it. The number is then the value of such a token
  at the leftmost place where one stands (the whole text when the text is one token), and
  it lies between 0 and 10. The parser gives no number only when the text holds no such
  token.
\<close>

theorem score_of_leftmost_token:
  "(parseScoreText text \<noteq> None \<longleftrightarrow>
      (\<exists>pre tok suf. trim (collapse_spaces text) = pre @ tok @ suf \<and> bounded_token pre tok suf))
   \<and> (parseScoreText text = Some n \<longrightarrow>
        (\<exists>pre tok suf. trim (collapse_spaces text) = pre @ tok @ suf
           \<and> bounded_token pre tok suf \<and> n = parseFloat tok
           \<and> num_le (0, 0) n \<and> num_le n (10, 0)
           \<and> (\<forall>pre' tok' suf'. trim (collapse_spaces text) = pre' @ tok' @ suf'
                  \<and> bounded_token pre' tok' suf' \<longrightarrow> length pre \<le> length pre')))
   \<and> (is_token (trim (collapse_spaces text)) \<longrightarrow>
        parseScoreText text = Some (parseFloat (trim (collapse_spaces text))))"
proof -
  let ?s = "trim (collapse_spaces text)"
  let ?m = "case exact_match ?s of Some tok \<Rightarrow> Some tok | None \<Rightarrow> search_match ?s"
  have some: "parseScoreText text = Some (parseFloat tok)
      \<and> (\<exists>pre suf. ?s = pre @ tok @ suf \<and> bounded_token pre tok suf
           \<and> (\<forall>pre' tok' suf'. ?s = pre' @ tok' @ suf' \<and> bounded_token pre' tok' suf'
                \<longrightarrow> length pre \<le> length pre'))
      \<and> num_le (0, 0) (parseFloat tok) \<and> num_le (parseFloat tok) (10, 0)"
    if m: "?m = Some tok" for tok
  proof -
    from matched_token [OF m] obtain pre suf where
      d: "?s = pre @ tok @ suf \<and> bounded_token pre tok suf
           \<and> (\<forall>pre' tok' suf'. ?s = pre' @ tok' @ suf' \<and> bounded_token pre' tok' suf'
                \<longrightarrow> length pre \<le> length pre')" by blast
    then have "is_token tok" by (simp add: bounded_token_def)
    from parseFloat_token_range [OF this]
    have r: "num_le (0, 0) (parseFloat tok) \<and> num_le (parseFloat tok) (10, 0)" .
    with m have "parseScoreText text = Some (parseFloat tok)"
      by (simp add: parseScoreText_cases)
    with d r show ?thesis by blast
  qed
  have none: "parseScoreText text = None
      \<and> \<not> (\<exists>pre tok suf. ?s = pre @ tok @ suf \<and> bounded_token pre tok suf)"
    if m: "?m = None"
  proof -
    from m have "parseScoreText text = None" by (simp add: parseScoreText_cases)
    with unmatched_token [OF m] show ?thesis by blast
  qed
  have 1: "parseScoreText text \<noteq> None \<longleftrightarrow>
      (\<exists>pre tok suf. ?s = pre @ tok @ suf \<and> bounded_token pre tok suf)"
  proof (cases ?m)
    case None
    from none [OF None] show ?thesis by simp
  next
    case (Some tok)
    from some [OF Some] show ?thesis by auto
  qed
  have 2: "parseScoreText text = Some n \<longrightarrow>
        (\<exists>pre tok suf. ?s = pre @ tok @ suf
           \<and> bounded_token pre tok suf \<and> n = parseFloat tok
           \<and> num_le (0, 0) n \<and> num_le n (10, 0)
           \<and> (\<forall>pre' tok' suf'. ?s = pre' @ tok' @ suf'
                  \<and> bounded_token pre' tok' suf' \<longrightarrow> length pre \<le> length pre'))"
  proof (cases ?m)
    case None
    from none [OF None] show ?thesis by simp
  next
    case (Some tok)
    from some [OF Some] show ?thesis by auto
  qed
  have 3: "is_token ?s \<longrightarrow> parseScoreText text = Some (parseFloat ?s)"
  proof
    assume t: "is_token ?s"
    then have "exact_match ?s = Some ?s" by (simp add: exact_match_Some)
    then have "?m = Some ?s" by simp
    from some [OF this] show "parseScoreText text = Some (parseFloat ?s)" by simp
  qed
  from 1 2 3 show ?thesis by (intro conjI)
qed

theorem score_of_leftmost_token_witness:
  "parseScoreText ''Score:  7.8 / 10'' = Some (78, - 1)
   \<and> (\<exists>pre tok suf. trim (collapse_spaces ''Score:  7.8 / 10'') = pre @ tok @ suf
         \<and> bounded_token pre tok suf \<and> (78, - 1) = parseFloat tok
         \<and> num_le (0, 0) (78, - 1) \<and> num_le (78, - 1) (10, 0))
   \<and> is_token (trim (collapse_spaces '' 10.0 ''))
   \<and> parseScoreText '' 10.0 '' = Some (parseFloat (trim (collapse_spaces '' 10.0 '')))"
proof -
  have p: "parseScoreText ''Score:  7.8 / 10'' = Some (78, - 1)" by code_simp
  have t: "is_token (trim (collapse_spaces '' 10.0 ''))" by code_simp
  note a = score_of_leftmost_token [of "''Score:  7.8 / 10''" "(78, - 1)",
      THEN conjunct2, THEN conjunct1, rule_format, OF p]
  note b = score_of_leftmost_token [of "'' 10.0 ''", THEN conjunct2, THEN conjunct2,
      rule_format, OF t]
  from a have "\<exists>pre tok suf. trim (collapse_spaces ''Score:  7.8 / 10'') = pre @ tok @ suf
         \<and> bounded_token pre tok suf \<and> (78, - 1) = parseFloat tok
         \<and> num_le (0, 0) (78, - 1) \<and> num_le (78, - 1) (10, 0)"
    by blast
  with p t b show ?thesis by (intro conjI)
qed

theorem boundary_tokens_counterexample:
  "parseScoreText ''10.1'' = Some (10, 0) \<and> parseScoreText ''-1.0'' = Some (10, - 1)"
  by code_simp

end
